theory Spec2Isabelle
  imports Main "HOL-Library.Multiset" "HOL-Library.Word"
begin

section \<open>Python values and formatting\<close>

text \<open>
  The Python exceptions that the two scripts can raise on the paths modelled here. A function
  of the model that can raise returns \<open>exception + 'a\<close>, with \<open>Inl\<close> for the exception.
  \<open>BadGzipFile\<close> stands for what the gzip module raises on a stream it cannot read.
\<close>

datatype exception =
    ZeroDivisionError | IndexError | ValueError | FileNotFoundError | IsADirectoryError
  | FileExistsError | NotADirectoryError | BadGzipFile

text \<open>
  The Python slice \<open>xs[start:stop]\<close> for indices \<open>0 \<le> start\<close> and \<open>0 \<le> stop\<close>, on a list
  and on the rows of \<open>DataFrame.iloc\<close>: bounds beyond the end are clamped, and the result is
  empty when \<open>stop \<le> start\<close>.
\<close>

definition slice :: "'a list \<Rightarrow> nat \<Rightarrow> nat \<Rightarrow> 'a list" where
  "slice xs start stop = take (stop - start) (drop start xs)"

text \<open>
  Number formatting: \<open>str_nat n\<close> is the decimal text of \<open>n\<close> (the f-string \<open>{n}\<close>), and
  \<open>fmt_02d n\<close> is \<open>{n:02d}\<close>, padded with zeros to at least two digits. \<open>nat_of_digits\<close> reads
  a digit string back.
\<close>

fun str_nat :: "nat \<Rightarrow> string" where
  "str_nat n = (if n < 10 then [''0123456789'' ! n]
                else str_nat (n div 10) @ [''0123456789'' ! (n mod 10)])"

declare str_nat.simps [simp del]

definition fmt_02d :: "nat \<Rightarrow> string" where
  "fmt_02d n = replicate (2 - length (str_nat n)) (CHR ''0'') @ str_nat n"

definition digit_val :: "char \<Rightarrow> nat" where
  "digit_val c = length (takeWhile (\<lambda>d. d \<noteq> c) ''0123456789'')"

definition nat_of_digits :: "string \<Rightarrow> nat" where
  "nat_of_digits s = foldl (\<lambda>acc c. 10 * acc + digit_val c) 0 s"

section \<open>The line partitioner\<close>

text \<open>
  The line partitioner of \<open>split_data.py\<close>, lines 131 to 150. \<open>part_size\<close> is line 144,
  \<open>split_loop\<close> is the \<open>for i in range(n_files)\<close> loop with its running \<open>start_idx\<close> and the
  list \<open>parts\<close> it appends to, and \<open>split_parts\<close> adds lines 132 and 133 in front, where a
  part count of 0 raises \<open>ZeroDivisionError\<close> (\<open>main\<close> never passes 0).
\<close>

definition part_size :: "nat \<Rightarrow> nat \<Rightarrow> nat \<Rightarrow> nat" where
  "part_size lines_per_part remainder i = lines_per_part + (if i < remainder then 1 else 0)"

fun split_loop :: "'a \<Rightarrow> 'a list \<Rightarrow> nat \<Rightarrow> nat \<Rightarrow> nat list \<Rightarrow> nat \<Rightarrow> 'a list list \<Rightarrow> 'a list list" where
  "split_loop header data_lines lines_per_part remainder [] start_idx parts = parts"
| "split_loop header data_lines lines_per_part remainder (i # is) start_idx parts =
     (let end_idx = start_idx + part_size lines_per_part remainder i;
          part_lines = header # slice data_lines start_idx end_idx
      in split_loop header data_lines lines_per_part remainder is end_idx (parts @ [part_lines]))"

definition split_parts :: "'a \<Rightarrow> 'a list \<Rightarrow> nat \<Rightarrow> exception + 'a list list" where
  "split_parts header data_lines n_files =
     (if n_files = 0 then Inl ZeroDivisionError
      else let lines_per_part = length data_lines div n_files;
               remainder = length data_lines mod n_files
           in Inr (split_loop header data_lines lines_per_part remainder [0..<n_files] 0 []))"

section \<open>The shuffle/shard partitioner\<close>

text \<open>
  The shuffle/shard partitioner of \<open>convert_to_parquet.py\<close>. What numpy and pyarrow
  compute is a parameter of the model: \<open>np_seed s\<close> is the state of numpy's global generator
  after \<open>np.random.seed(s)\<close>, \<open>np_permutation g n\<close> is the array \<open>np.random.permutation(n)\<close>
  returns from the generator state \<open>g\<close> together with the state it leaves, and
  \<open>parquet_size rows\<close> is the size in bytes of the file \<open>pq.write_table\<close> produces for the
  rows. The type \<open>'g\<close> of generator states and the type \<open>'row\<close> of rows are left open.

  The state of a run is the generator state and the list of Parquet files written so far,
  each with its path and its rows. A path \<open>output_dir / name\<close> is the pair of the directory
  and the file name. A record set is the list of its rows.
  Console output and timing are not part of the model.
\<close>

record ('g, 'row) library =
  np_seed :: "nat \<Rightarrow> 'g"
  np_permutation :: "'g \<Rightarrow> nat \<Rightarrow> nat list \<times> 'g"
  parquet_size :: "'row list \<Rightarrow> nat"

record ('g, 'row) disk =
  rng :: 'g
  parquet_files :: "((string \<times> string) \<times> 'row list) list"

text \<open>
  \<open>np.random.seed\<close> accepts an integer from 0 to \<open>2^32 - 1\<close> and raises \<open>ValueError\<close>
  otherwise; it replaces the generator state whatever it was. \<open>iloc_take\<close> is
  \<open>df.iloc[indices].reset_index(drop=True)\<close>, which raises \<open>IndexError\<close> for a position outside
  the frame.
\<close>

definition random_seed :: "('g, 'row) library \<Rightarrow> ('g, 'row) disk \<Rightarrow> int \<Rightarrow> exception + ('g, 'row) disk" where
  "random_seed lib st seed =
     (if 0 \<le> seed \<and> seed < 2 ^ 32 then Inr (st\<lparr>rng := np_seed lib (nat seed)\<rparr>)
      else Inl ValueError)"

definition random_permutation :: "('g, 'row) library \<Rightarrow> ('g, 'row) disk \<Rightarrow> nat \<Rightarrow> nat list \<times> ('g, 'row) disk" where
  "random_permutation lib st n =
     (let (idx, g) = np_permutation lib (rng st) n in (idx, st\<lparr>rng := g\<rparr>))"

definition iloc_take :: "'row list \<Rightarrow> nat list \<Rightarrow> exception + 'row list" where
  "iloc_take df idx =
     (if list_all (\<lambda>i. i < length df) idx then Inr (map (\<lambda>i. df ! i) idx) else Inl IndexError)"

text \<open>
  Lines 133 to 168: \<open>shard_rows\<close> is the slice of lines 134 to 138, \<open>shard_name\<close> the file name
  of line 139, and \<open>shard_loop\<close> the loop over \<open>range(num_shards)\<close> with the accumulators
  \<open>total_size\<close> and \<open>shard_files\<close>.
\<close>

definition shard_name :: "string \<Rightarrow> nat \<Rightarrow> string" where
  "shard_name prefix shard_idx = prefix @ ''.shard'' @ fmt_02d (shard_idx + 1) @ ''.parquet''"

definition shard_rows :: "'row list \<Rightarrow> nat \<Rightarrow> nat \<Rightarrow> nat \<Rightarrow> 'row list" where
  "shard_rows df_shuffled num_shards rows_per_shard shard_idx =
     (let total_rows = length df_shuffled;
          start_row = shard_idx * rows_per_shard;
          end_row = (if shard_idx = num_shards - 1 then total_rows
                     else (shard_idx + 1) * rows_per_shard)
      in slice df_shuffled start_row end_row)"

fun shard_loop ::
  "('g, 'row) library \<Rightarrow> 'row list \<Rightarrow> string \<Rightarrow> string \<Rightarrow> nat \<Rightarrow> nat \<Rightarrow> nat list \<Rightarrow>
   nat \<Rightarrow> (string \<times> string) list \<Rightarrow> ('g, 'row) disk \<Rightarrow>
   ((string \<times> string) list \<times> nat) \<times> ('g, 'row) disk" where
  "shard_loop lib df_shuffled output_dir prefix num_shards rows_per_shard [] total_size shard_files st =
     ((shard_files, total_size), st)"
| "shard_loop lib df_shuffled output_dir prefix num_shards rows_per_shard (shard_idx # rest)
       total_size shard_files st =
     (let shard_df = shard_rows df_shuffled num_shards rows_per_shard shard_idx;
          shard_path = (output_dir, shard_name prefix shard_idx);
          file_size = parquet_size lib shard_df
      in shard_loop lib df_shuffled output_dir prefix num_shards rows_per_shard rest
           (total_size + file_size) (shard_files @ [shard_path])
           (st\<lparr>parquet_files := parquet_files st @ [(shard_path, shard_df)]\<rparr>))"

text \<open>
  Lines 119 and 120 seed the generator and draw the permutation; \<open>shuffle_and_shard\<close> is the
  whole function. Line 123 divides by \<open>num_shards\<close> and raises \<open>ZeroDivisionError\<close> for 0; for
  a negative \<open>num_shards\<close> the range of the loop is empty and nothing is written.
\<close>

definition shuffled_indices ::
  "('g, 'row) library \<Rightarrow> ('g, 'row) disk \<Rightarrow> nat \<Rightarrow> int \<Rightarrow> exception + nat list \<times> ('g, 'row) disk" where
  "shuffled_indices lib st n seed =
     (case random_seed lib st seed of
        Inl e \<Rightarrow> Inl e
      | Inr st1 \<Rightarrow> Inr (random_permutation lib st1 n))"

definition shuffle_and_shard ::
  "('g, 'row) library \<Rightarrow> ('g, 'row) disk \<Rightarrow> 'row list \<Rightarrow> string \<Rightarrow> string \<Rightarrow> int \<Rightarrow> int \<Rightarrow>
   exception + ((string \<times> string) list \<times> nat) \<times> ('g, 'row) disk" where
  "shuffle_and_shard lib st df output_dir prefix num_shards seed =
     (case shuffled_indices lib st (length df) seed of
        Inl e \<Rightarrow> Inl e
      | Inr (idx, st2) \<Rightarrow>
          (case iloc_take df idx of
             Inl e \<Rightarrow> Inl e
           | Inr df_shuffled \<Rightarrow>
               if num_shards = 0 then Inl ZeroDivisionError
               else Inr (shard_loop lib df_shuffled output_dir prefix (nat num_shards)
                           (length df_shuffled div nat num_shards) [0..<nat num_shards] 0 [] st2)))"

text \<open>
  A small instance of the library for running the model on concrete inputs: the generator
  state is a counter and the permutation reverses the indices.
\<close>

definition demo_library :: "(nat, string) library" where
  "demo_library = \<lparr>np_seed = (\<lambda>s. s), np_permutation = (\<lambda>g n. (rev [0..<n], Suc g)),
                     parquet_size = length\<rparr>"

section \<open>The line splitter\<close>

text \<open>
  The line splitter \<open>split_data.py\<close>. File contents are byte lists, and decoded text is a
  Python \<open>str\<close>: a list of Unicode code points. Paths, arguments and printed lines are
  \<open>string\<close>s. The filesystem is a map from paths to nodes: it sends a path, as the script
  spells it, to the regular file or directory that the path resolves to, if any. What the
  script does to the filesystem is recorded, in order, as a list of operations. A run ends by
  \<open>sys.exit\<close>, by an uncaught exception, or by returning from \<open>main\<close>.
\<close>

type_synonym bytes = "8 word list"

type_synonym pystr = "nat list"

datatype node = File bytes | Dir

datatype fs_op = MakeDirs string | WriteGz string "pystr list"

datatype outcome = SysExit int | Raised exception | Returned

record world =
  stdout :: "string list"
  fs_ops :: "fs_op list"

text \<open>
  What Python's built-ins and the gzip module compute is a parameter of the model:
  \<open>py_int s\<close> is \<open>int(s)\<close>, with \<open>Inl\<close> carrying the message of the \<open>ValueError\<close>;
  \<open>gzip_decompress\<close> is \<open>gzip.decompress\<close> and \<open>gzipfile_read\<close> is reading the whole stream
  through \<open>gzip.GzipFile\<close>; \<open>decode_utf8\<close> is \<open>bytes.decode('utf-8', errors='replace')\<close>,
  which never raises; \<open>gzip_compress content\<close> is the bytes that \<open>gzip.open\<close> in text mode
  stores for the lines written to it; \<open>getsize path content\<close> is the size in bytes of the compressed file
  written at \<open>path\<close>; \<open>fmt_size_mb n\<close> is the text of \<open>n / (1024 * 1024)\<close> under the format
  \<open>.2f\<close>, and \<open>fmt_mean_mb sizes\<close> the text of the mean of the sizes in megabytes under the
  same format.
\<close>

record platform =
  py_int :: "string \<Rightarrow> string + int"
  gzip_decompress :: "bytes \<Rightarrow> exception + bytes"
  gzipfile_read :: "bytes \<Rightarrow> exception + bytes"
  decode_utf8 :: "bytes \<Rightarrow> pystr"
  gzip_compress :: "pystr list \<Rightarrow> bytes"
  getsize :: "string \<Rightarrow> pystr list \<Rightarrow> nat"
  fmt_size_mb :: "nat \<Rightarrow> string"
  fmt_mean_mb :: "nat list \<Rightarrow> string"

definition print :: "string \<Rightarrow> world \<Rightarrow> world" where
  "print line w = w\<lparr>stdout := stdout w @ [line]\<rparr>"

definition endswith :: "'a list \<Rightarrow> 'a list \<Rightarrow> bool" where
  "endswith s suffix = (length suffix \<le> length s \<and> drop (length s - length suffix) s = suffix)"

text \<open>
  \<open>fmt_commas n\<close> is the f-string \<open>{n:,}\<close>: the decimal digits in groups of three.
\<close>

fun group3 :: "string \<Rightarrow> string" where
  "group3 (a # b # c # d # rest) = a # b # c # CHR '','' # group3 (d # rest)"
| "group3 ds = ds"

definition fmt_commas :: "nat \<Rightarrow> string" where
  "fmt_commas n = rev (group3 (rev (str_nat n)))"

text \<open>
  \<open>parse_arguments\<close>, lines 12 to 21: every argument after the script name that contains
  \<open>=\<close> is split at its first \<open>=\<close> and stored, a later one replacing an earlier one with the
  same key; any other argument is reported and ignored.
\<close>

definition ignoring_warning :: "string \<Rightarrow> string" where
  "ignoring_warning arg =
     ''Warning: Ignoring argument '' @ [CHR 0x27] @ arg @ [CHR 0x27] @
     '' (expected format: key=value)''"

fun parse_arguments_loop ::
  "string list \<Rightarrow> (string \<rightharpoonup> string) \<Rightarrow> world \<Rightarrow> (string \<rightharpoonup> string) \<times> world" where
  "parse_arguments_loop [] args w = (args, w)"
| "parse_arguments_loop (arg # rest) args w =
     (if CHR ''='' \<in> set arg
      then (let key = takeWhile (\<lambda>c. c \<noteq> CHR ''='') arg;
                val = tl (dropWhile (\<lambda>c. c \<noteq> CHR ''='') arg)
            in parse_arguments_loop rest (args(key \<mapsto> val)) w)
      else parse_arguments_loop rest args (print (ignoring_warning arg) w))"

definition parse_arguments :: "string list \<Rightarrow> world \<Rightarrow> (string \<rightharpoonup> string) \<times> world" where
  "parse_arguments argv w = parse_arguments_loop (tl argv) Map.empty w"

text \<open>
  The functions of \<open>os.path\<close> the script calls, for POSIX paths: \<open>splitext\<close> splits at the
  last dot of the last path component, leading dots not counted; \<open>basename\<close> is what follows
  the last slash; \<open>dirname\<close> is what precedes it, without trailing slashes unless it consists
  of slashes only. \<open>rfind\<close> is \<open>str.rfind\<close> for a single character.
\<close>

definition rfind :: "char \<Rightarrow> string \<Rightarrow> int" where
  "rfind c s =
     (if c \<in> set s then int (length s) - 1 - int (length (takeWhile (\<lambda>x. x \<noteq> c) (rev s)))
      else - 1)"

definition splitext :: "string \<Rightarrow> string \<times> string" where
  "splitext p =
     (let sepIndex = rfind (CHR ''/'') p;
          dotIndex = rfind (CHR ''.'') p
      in if dotIndex > sepIndex \<and>
            list_ex (\<lambda>c. c \<noteq> CHR ''.'') (slice p (nat (sepIndex + 1)) (nat dotIndex))
         then (take (nat dotIndex) p, drop (nat dotIndex) p)
         else (p, []))"

definition basename :: "string \<Rightarrow> string" where
  "basename p = drop (nat (rfind (CHR ''/'') p + 1)) p"

definition rstrip_sep :: "string \<Rightarrow> string" where
  "rstrip_sep s = rev (dropWhile (\<lambda>c. c = CHR ''/'') (rev s))"

definition dirname :: "string \<Rightarrow> string" where
  "dirname p =
     (let head = take (nat (rfind (CHR ''/'') p + 1)) p
      in if head \<noteq> [] \<and> head \<noteq> replicate (length head) (CHR ''/'') then rstrip_sep head
         else head)"

text \<open>
  \<open>get_file_extension\<close> and \<open>get_base_filename\<close>, lines 23 to 41.
\<close>

definition get_file_extension :: "string \<Rightarrow> string" where
  "get_file_extension filename =
     (if endswith filename ''.gz''
      then (let base = take (length filename - 3) filename
            in snd (splitext base) @ ''.gz'')
      else snd (splitext filename))"

definition get_base_filename :: "string \<Rightarrow> string" where
  "get_base_filename filename =
     (let basename0 = basename filename;
          basename1 = (if endswith basename0 ''.gz''
                       then take (length basename0 - 3) basename0 else basename0)
      in fst (splitext basename1))"

text \<open>
  \<open>str.splitlines(keepends=True)\<close>: a line ends after a line boundary, the two characters
  CR LF count as one boundary, every line keeps its boundary, and text after the last boundary
  is a final line.
\<close>

definition is_line_boundary :: "nat \<Rightarrow> bool" where
  "is_line_boundary c = (c \<in> set [0x0A, 0x0B, 0x0C, 0x0D, 0x1C, 0x1D, 0x1E, 0x85, 0x2028, 0x2029])"

fun splitlines_from :: "pystr \<Rightarrow> pystr \<Rightarrow> pystr list" where
  "splitlines_from cur [] = (if cur = [] then [] else [cur])"
| "splitlines_from cur [c] = [cur @ [c]]"
| "splitlines_from cur (c # d # rest) =
     (if c = 0x0D \<and> d = 0x0A then (cur @ [c, d]) # splitlines_from [] rest
      else if is_line_boundary c then (cur @ [c]) # splitlines_from [] (d # rest)
      else splitlines_from (cur @ [c]) (d # rest))"

definition splitlines_keepends :: "pystr \<Rightarrow> pystr list" where
  "splitlines_keepends txt = splitlines_from [] txt"

text \<open>
  \<open>read_file_lines\<close>, lines 43 to 71. \<open>decompress\<close> is the \<open>try\<close> of lines 51 to 59: when
  \<open>gzip.decompress\<close> raises, the result is that of the fallback, which may raise in turn.
  \<open>ensure_final_newline\<close> is lines 68 and 69. Opening a path that does not exist or that is a
  directory raises.
\<close>

definition decompress :: "platform \<Rightarrow> bytes \<Rightarrow> exception + bytes" where
  "decompress P compressed_data =
     (case gzip_decompress P compressed_data of
        Inr decompressed_data \<Rightarrow> Inr decompressed_data
      | Inl e \<Rightarrow> gzipfile_read P compressed_data)"

definition ensure_final_newline :: "pystr list \<Rightarrow> pystr list" where
  "ensure_final_newline lines =
     (if lines \<noteq> [] \<and> \<not> endswith (last lines) [0x0A]
      then lines[length lines - 1 := last lines @ [0x0A]]
      else lines)"

definition read_file_lines :: "platform \<Rightarrow> (string \<rightharpoonup> node) \<Rightarrow> string \<Rightarrow> exception + pystr list" where
  "read_file_lines P fs filepath =
     (case fs filepath of
        None \<Rightarrow> Inl FileNotFoundError
      | Some Dir \<Rightarrow> Inl IsADirectoryError
      | Some (File compressed_data) \<Rightarrow>
          (case decompress P compressed_data of
             Inl e \<Rightarrow> Inl e
           | Inr decompressed_data \<Rightarrow>
               Inr (ensure_final_newline (splitlines_keepends (decode_utf8 P decompressed_data)))))"

text \<open>
  Writing to the filesystem. \<open>os.makedirs(name, exist_ok=True)\<close> raises when \<open>name\<close> is a
  regular file (\<open>FileExistsError\<close>) or lies below one (\<open>NotADirectoryError\<close>); otherwise \<open>name\<close>
  and the directories above it are directories afterwards. \<open>ancestors\<close> lists the
  directories above a path. Opening a path for writing raises when the path is a directory;
  otherwise the path is a regular file with the new content afterwards. Refusals that the map
  of nodes cannot express (permissions, a full disk) are not modelled.

  \<open>main\<close>, lines 73 to 185. \<open>write_loop\<close> is the loop of lines 154 to 170 over the parts
  numbered from 1, run on the filesystem as the parts written so far have left it; an
  exception of line 161 or line 164 ends the run, and the operations that succeeded are in the
  record; \<open>summary\<close> is lines 173 to 185, where a part is over the limit when its
  size in bytes exceeds \<open>100 * 1024 * 1024\<close>; \<open>split_file\<close> is lines 105 to 185, entered with
  the validated arguments; \<open>main\<close> parses and validates the arguments first.
  \<open>output_dir\<close> is the directory that line 161 creates for an output path.
\<close>

definition usage :: string where
  "usage = ''Usage: python split_data.py input_file=path/to/file output_path=path/ n_files=10''"

definition part_filename :: "string \<Rightarrow> string \<Rightarrow> string \<Rightarrow> nat \<Rightarrow> string" where
  "part_filename output_path base_filename extension i =
     output_path @ base_filename @ ''.part'' @ fmt_02d i @ extension"

definition is_file :: "(string \<rightharpoonup> node) \<Rightarrow> string \<Rightarrow> bool" where
  "is_file fs path = (case fs path of Some (File content) \<Rightarrow> True | _ \<Rightarrow> False)"

definition ancestors :: "string \<Rightarrow> string list" where
  "ancestors path =
     filter (\<lambda>q. q \<noteq> [])
       (map (\<lambda>i. rstrip_sep (take i path))
          (filter (\<lambda>i. path ! i = CHR ''/'') [0..<length path]))"

definition os_makedirs :: "(string \<rightharpoonup> node) \<Rightarrow> string \<Rightarrow> exception + (string \<rightharpoonup> node)" where
  "os_makedirs fs name =
     (if list_ex (is_file fs) (ancestors name) then Inl NotADirectoryError
      else if is_file fs name then Inl FileExistsError
      else Inr (foldr (\<lambda>q m. m(q \<mapsto> Dir)) (ancestors name @ [name]) fs))"

definition gzip_open_write ::
  "platform \<Rightarrow> (string \<rightharpoonup> node) \<Rightarrow> string \<Rightarrow> pystr list \<Rightarrow> exception + (string \<rightharpoonup> node)" where
  "gzip_open_write P fs path content =
     (case fs path of
        Some Dir \<Rightarrow> Inl IsADirectoryError
      | _ \<Rightarrow> Inr (fs(path \<mapsto> File (gzip_compress P content))))"

fun write_loop ::
  "platform \<Rightarrow> (string \<rightharpoonup> node) \<Rightarrow> string \<Rightarrow> string \<Rightarrow> string \<Rightarrow>
   (nat \<times> pystr list) list \<Rightarrow> nat list \<Rightarrow> world \<Rightarrow> (exception + nat list) \<times> world" where
  "write_loop P fs output_path base_filename extension [] file_sizes w = (Inr file_sizes, w)"
| "write_loop P fs output_path base_filename extension ((i, part_lines) # rest) file_sizes w =
     (let output_file = part_filename output_path base_filename extension i;
          w1 = print (''Writing '' @ output_file @ '' ('' @ fmt_commas (length part_lines) @
                      '' lines including header)...'') w;
          target = (if dirname output_file \<noteq> [] then dirname output_file else ''.'')
      in case os_makedirs fs target of
           Inl e \<Rightarrow> (Inl e, w1)
         | Inr fs1 \<Rightarrow>
             (let w2 = w1\<lparr>fs_ops := fs_ops w1 @ [MakeDirs target]\<rparr>
              in case gzip_open_write P fs1 output_file part_lines of
                   Inl e \<Rightarrow> (Inl e, w2)
                 | Inr fs2 \<Rightarrow>
                     (let w3 = w2\<lparr>fs_ops := fs_ops w2 @ [WriteGz output_file part_lines]\<rparr>;
                          size_bytes = getsize P output_file part_lines;
                          w4 = print (''  Size: '' @ fmt_size_mb P size_bytes @ '' MB'') w3
                      in write_loop P fs2 output_path base_filename extension rest
                           (file_sizes @ [size_bytes]) w4)))"

definition summary :: "platform \<Rightarrow> nat \<Rightarrow> nat list \<Rightarrow> world \<Rightarrow> outcome \<times> world" where
  "summary P n_files file_sizes w =
     (let w1 = print ([CHR 0x0A] @ ''Summary:'') w;
          w2 = print (''  Total parts: '' @ str_nat n_files) w1
      in if file_sizes = [] then (Raised ZeroDivisionError, w2)
         else
           let w3 = print (''  Average size: '' @ fmt_mean_mb P file_sizes @ '' MB'') w2;
               w4 = print (''  Largest part: '' @ fmt_size_mb P (fold max file_sizes 0) @ '' MB'') w3;
               w5 = print (''  Smallest part: '' @
                           fmt_size_mb P (fold min file_sizes (hd file_sizes)) @ '' MB'') w4;
               w6 = (if list_ex (\<lambda>size_bytes. size_bytes > 100 * (1024 * 1024)) file_sizes
                     then print ([CHR 0x0A] @ ''Warning: One or more parts exceed 100MB!'') w5
                     else print ([CHR 0x0A] @ ''Success: All parts are under 100MB!'') w5)
           in (Returned, print ''Done!'' w6))"

definition normalise_output_path :: "string \<Rightarrow> string" where
  "normalise_output_path output_path =
     (if \<not> endswith output_path ''/'' \<and> \<not> endswith output_path [CHR 0x5C]
      then output_path @ ''/'' else output_path)"

definition output_dir :: "string \<Rightarrow> string" where
  "output_dir output_path =
     (if dirname (normalise_output_path output_path) \<noteq> []
      then dirname (normalise_output_path output_path) else ''.'')"

definition split_file ::
  "platform \<Rightarrow> (string \<rightharpoonup> node) \<Rightarrow> string \<Rightarrow> string \<Rightarrow> nat \<Rightarrow> world \<Rightarrow> outcome \<times> world" where
  "split_file P fs input_file output_path0 n_files w =
     (let output_path = normalise_output_path output_path0
      in if fs input_file = None
         then (SysExit 1, print (''Error: Input file '' @ [CHR 0x27] @ input_file @ [CHR 0x27] @
                                 '' does not exist'') w)
         else
           let base_filename = get_base_filename input_file;
               extension = get_file_extension input_file;
               w1 = print (''Reading '' @ input_file @ ''...'') w
           in case read_file_lines P fs input_file of
                Inl e \<Rightarrow> (Raised e, w1)
              | Inr lines \<Rightarrow>
                  let total_lines = length lines;
                      w2 = print (''Total lines: '' @ fmt_commas total_lines) w1
                  in (case lines of
                        [] \<Rightarrow> (SysExit 1, print ''Error: Input file is empty'' w2)
                      | header # data_lines \<Rightarrow>
                          (case split_parts header data_lines n_files of
                             Inl e \<Rightarrow> (Raised e, w2)
                           | Inr parts \<Rightarrow>
                               let w3 = print (''Splitting into '' @ str_nat n_files @ '' parts...'') w2;
                                   w4 = print (''Lines per part: ~'' @
                                               fmt_commas (length data_lines div n_files) @
                                               '' (excluding header)'') w3;
                                   (written_sizes, w5) =
                                      write_loop P fs output_path base_filename extension
                                        (zip [1..<length parts + 1] parts) [] w4
                               in (case written_sizes of
                                     Inl e \<Rightarrow> (Raised e, w5)
                                   | Inr file_sizes \<Rightarrow> summary P n_files file_sizes w5))))"

text \<open>
  \<open>not v\<close> for the result of \<open>args.get\<close>: true for \<open>None\<close> and for the empty string.
\<close>

definition falsy :: "string option \<Rightarrow> bool" where
  "falsy v = (case v of None \<Rightarrow> True | Some s \<Rightarrow> s = [])"

definition main :: "platform \<Rightarrow> (string \<rightharpoonup> node) \<Rightarrow> string list \<Rightarrow> outcome \<times> world" where
  "main P fs argv =
     (let (args, w) = parse_arguments argv \<lparr>stdout = [], fs_ops = []\<rparr>;
          input_file = args ''input_file'';
          output_path = args ''output_path'';
          n_files = args ''n_files''
      in if falsy input_file
         then (SysExit 1, print usage (print ''Error: input_file is required'' w))
         else if falsy output_path
         then (SysExit 1, print usage (print ''Error: output_path is required'' w))
         else if falsy n_files
         then (SysExit 1, print usage (print ''Error: n_files is required'' w))
         else
           case py_int P (the n_files) of
             Inl msg \<Rightarrow>
               (SysExit 1, print (''Error: n_files must be a positive integer: '' @ msg) w)
           | Inr n \<Rightarrow>
               if n < 1
               then (SysExit 1, print (''Error: n_files must be a positive integer: '' @
                                       ''n_files must be at least 1'') w)
               else split_file P fs (the input_file) (the output_path) (nat n) w)"

fun written :: "fs_op list \<Rightarrow> (string \<times> pystr list) list" where
  "written [] = []"
| "written (WriteGz path content # ops) = (path, content) # written ops"
| "written (MakeDirs path # ops) = written ops"

text \<open>
  The invocations that the script rejects: a required argument is missing or empty,
  \<open>int()\<close> rejects \<open>n_files\<close> or its value is below 1, the input path does not exist, or the
  input decodes to no line at all. \<open>written\<close> lists the files written by a sequence of
  filesystem operations, in order.
\<close>

definition missing_argument :: "(string \<rightharpoonup> string) \<Rightarrow> bool" where
  "missing_argument args =
     (falsy (args ''input_file'') \<or> falsy (args ''output_path'') \<or> falsy (args ''n_files''))"

definition rejected_invocation ::
  "platform \<Rightarrow> (string \<rightharpoonup> node) \<Rightarrow> (string \<rightharpoonup> string) \<Rightarrow> bool" where
  "rejected_invocation P fs args =
     (missing_argument args \<or>
      (case py_int P (the (args ''n_files'')) of Inl msg \<Rightarrow> True | Inr n \<Rightarrow> n < 1) \<or>
      fs (the (args ''input_file'')) = None \<or>
      read_file_lines P fs (the (args ''input_file'')) = Inr [])"

text \<open>
  A small platform and filesystem for running the model on concrete inputs: \<open>demo_int\<close> reads
  strings of decimal digits, a compressed file is its content behind one marker byte, bytes
  decode to the code points of the same value, and sizes are printed as plain numbers.
\<close>

definition demo_int :: "string \<Rightarrow> string + int" where
  "demo_int s =
     (if s \<noteq> [] \<and> list_all (\<lambda>c. c \<in> set ''0123456789'') s
      then Inr (int (nat_of_digits s))
      else Inl (''invalid literal for int() with base 10: '' @ [CHR 0x27] @ s @ [CHR 0x27]))"

definition demo_platform :: platform where
  "demo_platform =
     \<lparr>py_int = demo_int,
      gzip_decompress = (\<lambda>b. case b of [] \<Rightarrow> Inr [] | x # xs \<Rightarrow> if x = 0x1F then Inr xs else Inl BadGzipFile),
      gzipfile_read = (\<lambda>b. Inl BadGzipFile),
      decode_utf8 = map unat,
      gzip_compress = (\<lambda>ls. 0x1F # map of_nat (concat ls)),
      getsize = (\<lambda>p ls. length (concat ls)),
      fmt_size_mb = str_nat,
      fmt_mean_mb = (\<lambda>sizes. str_nat (sum_list sizes div length sizes))\<rparr>"

definition demo_fs :: "string \<rightharpoonup> node" where
  "demo_fs = [''in/data.tsv.gz'' \<mapsto> File [0x1F, 0x68, 0x0A, 0x61, 0x0A, 0x62, 0x0D, 0x0A, 0x63],
              ''in/empty.tsv.gz'' \<mapsto> File [],
              ''in'' \<mapsto> Dir]"

section \<open>The type optimizer\<close>

text \<open>
  The type optimizer of \<open>convert_to_parquet.py\<close>, lines 30 to 40 and 76 to 111. A frame is a
  map from column names to columns. A column is an \<open>int64\<close> column, an \<open>int16\<close> column, or a
  column of another type, whose representation \<open>'a\<close> is left open. What pandas computes for
  \<open>astype('float32')\<close> and \<open>astype('category')\<close>, and for \<open>astype('int16')\<close> on a column that is
  not an integer column, is a parameter of the model; each of them may raise. On an \<open>int64\<close>
  column \<open>astype('int16')\<close> is numpy's cast, which keeps the low 16 bits of every value.
  \<open>int_values\<close> reads the values of an integer column as signed integers.
\<close>

definition FLOAT32_COLUMNS :: "string list" where
  "FLOAT32_COLUMNS =
     [''x'', ''y'', ''z'', ''transformedX'', ''transformedY'', ''transformedZ'',
      ''X_shifted'', ''Time'']"

definition INT16_COLUMNS :: "string list" where
  "INT16_COLUMNS = [''TimeRank'']"

definition CATEGORICAL_COLUMNS :: "string list" where
  "CATEGORICAL_COLUMNS = [''Gene'', ''CellType'', ''Structure'', ''HF'', ''Sample'', ''Group'']"

datatype 'a column = Int64 "64 word list" | Int16 "16 word list" | Other 'a

record 'a pandas =
  astype_float32 :: "'a column \<Rightarrow> exception + 'a column"
  astype_category :: "'a column \<Rightarrow> exception + 'a column"
  other_astype_int16 :: "'a \<Rightarrow> exception + 'a column"

definition astype_int16 :: "'a pandas \<Rightarrow> 'a column \<Rightarrow> exception + 'a column" where
  "astype_int16 pd col =
     (case col of
        Int64 ws \<Rightarrow> Inr (Int16 (map ucast ws))
      | Int16 ws \<Rightarrow> Inr (Int16 ws)
      | Other a \<Rightarrow> other_astype_int16 pd a)"

fun int_values :: "'a column \<Rightarrow> int list option" where
  "int_values (Int64 ws) = Some (map sint ws)"
| "int_values (Int16 ws) = Some (map sint ws)"
| "int_values (Other a) = None"

text \<open>
  \<open>convert_columns\<close> is one of the three loops of lines 84 to 100: a listed column that the
  frame has is replaced by its conversion, and one that the frame lacks is skipped.
  \<open>optimize_dtypes\<close> runs the three loops in the order of the source.
\<close>

fun convert_columns ::
  "('c \<Rightarrow> exception + 'c) \<Rightarrow> string list \<Rightarrow> (string \<rightharpoonup> 'c) \<Rightarrow> exception + (string \<rightharpoonup> 'c)" where
  "convert_columns astype [] df = Inr df"
| "convert_columns astype (col # rest) df =
     (case df col of
        None \<Rightarrow> convert_columns astype rest df
      | Some c \<Rightarrow>
          (case astype c of
             Inl e \<Rightarrow> Inl e
           | Inr c' \<Rightarrow> convert_columns astype rest (df(col \<mapsto> c'))))"

definition optimize_dtypes ::
  "'a pandas \<Rightarrow> (string \<rightharpoonup> 'a column) \<Rightarrow> exception + (string \<rightharpoonup> 'a column)" where
  "optimize_dtypes pd df =
     (case convert_columns (astype_float32 pd) FLOAT32_COLUMNS df of
        Inl e \<Rightarrow> Inl e
      | Inr df1 \<Rightarrow>
          (case convert_columns (astype_int16 pd) INT16_COLUMNS df1 of
             Inl e \<Rightarrow> Inl e
           | Inr df2 \<Rightarrow> convert_columns (astype_category pd) CATEGORICAL_COLUMNS df2))"

text \<open>
  The logical values of a column. What a value is, is left open (the type \<open>'v\<close>): a reading
  gives the value of an integer, the values of a column that is not an integer column, and
  the relation \<open>float_narrowing v v'\<close> between a value \<open>v\<close> and the value \<open>v'\<close> that narrowing
  to a 32-bit float may turn it into. \<open>column_values\<close> lists the values of a column.

  Two properties of pandas are stated for the conversions that are parameters: a conversion
  to a category keeps the values of the column, and a conversion to \<open>float32\<close> changes every
  value by float narrowing at most.
\<close>

record ('a, 'v) reading =
  int_value :: "int \<Rightarrow> 'v"
  other_values :: "'a \<Rightarrow> 'v list"
  float_narrowing :: "'v \<Rightarrow> 'v \<Rightarrow> bool"

definition column_values :: "('a, 'v) reading \<Rightarrow> 'a column \<Rightarrow> 'v list" where
  "column_values rd col =
     (case col of
        Int64 ws \<Rightarrow> map (\<lambda>w. int_value rd (sint w)) ws
      | Int16 ws \<Rightarrow> map (\<lambda>w. int_value rd (sint w)) ws
      | Other a \<Rightarrow> other_values rd a)"

definition category_keeps_values :: "'a pandas \<Rightarrow> ('a, 'v) reading \<Rightarrow> bool" where
  "category_keeps_values pd rd =
     (\<forall>x x'. astype_category pd x = Inr x' \<longrightarrow> column_values rd x' = column_values rd x)"

definition float32_narrows_values :: "'a pandas \<Rightarrow> ('a, 'v) reading \<Rightarrow> bool" where
  "float32_narrows_values pd rd =
     (\<forall>x x'. astype_float32 pd x = Inr x' \<longrightarrow>
        list_all2 (float_narrowing rd) (column_values rd x) (column_values rd x'))"

text \<open>
  A small instance for running the model on concrete frames. A column that is not an integer
  column is the list of its values as text, and an integer has its decimal text as value. The
  float values are taken to be exact in 32 bits, so that narrowing changes no value; a
  conversion to a category changes nothing; a text column converts to no integer.
\<close>

definition str_int :: "int \<Rightarrow> string" where
  "str_int i = (if i < 0 then CHR ''-'' # str_nat (nat (- i)) else str_nat (nat i))"

definition demo_pandas :: "string list pandas" where
  "demo_pandas =
     \<lparr>astype_float32 =
        (\<lambda>c. case c of
               Int64 ws \<Rightarrow> Inr (Other (map (\<lambda>w. str_int (sint w)) ws))
             | Int16 ws \<Rightarrow> Inr (Other (map (\<lambda>w. str_int (sint w)) ws))
             | Other a \<Rightarrow> Inr (Other a)),
      astype_category = (\<lambda>c. Inr c),
      other_astype_int16 = (\<lambda>a. Inl ValueError)\<rparr>"

definition demo_reading :: "(string list, string) reading" where
  "demo_reading = \<lparr>int_value = str_int, other_values = (\<lambda>a. a), float_narrowing = (=)\<rparr>"

section \<open>Properties of the line partitioner\<close>

lemma split_loop_length:
  "length (split_loop h d l r is s ps) = length ps + length is"
  by (induction "is" arbitrary: s ps) (simp_all add: Let_def)

lemma split_loop_prefix:
  "split_loop h d l r is s ps = ps @ split_loop h d l r is s []"
proof (induction "is" arbitrary: s ps)
  case Nil
  show ?case by simp
next
  case (Cons i "is")
  show ?case
    using Cons.IH [of _ "ps @ [h # slice d s (s + part_size l r i)]"]
          Cons.IH [of _ "[h # slice d s (s + part_size l r i)]"]
    by (simp add: Let_def)
qed

lemma split_loop_nth:
  "i < length is \<Longrightarrow>
   split_loop h d l r is s [] ! i =
     h # slice d (s + sum_list (map (part_size l r) (take i is)))
                 (s + sum_list (map (part_size l r) (take (Suc i) is)))"
proof (induction "is" arbitrary: s i)
  case Nil
  then show ?case by simp
next
  case (Cons j js)
  have unfold: "split_loop h d l r (j # js) s [] =
      (h # slice d s (s + part_size l r j)) # split_loop h d l r js (s + part_size l r j) []"
    using split_loop_prefix [of h d l r js "s + part_size l r j" "[h # slice d s (s + part_size l r j)]"]
    by (simp add: Let_def)
  show ?case
  proof (cases i)
    case 0
    then show ?thesis by (simp add: unfold del: split_loop.simps)
  next
    case (Suc k)
    with Cons.prems have "k < length js" by simp
    from Cons.IH [OF this, of "s + part_size l r j"] Suc
    show ?thesis by (simp add: unfold add.assoc del: split_loop.simps)
  qed
qed

lemma split_loop_concat:
  "concat (map tl (split_loop h d l r is s ps)) =
     concat (map tl ps) @ slice d s (s + sum_list (map (part_size l r) is))"
proof (induction "is" arbitrary: s ps)
  case Nil
  show ?case by (simp add: slice_def)
next
  case (Cons j js)
  have "slice d s (s + part_size l r j) @
        slice d (s + part_size l r j) (s + part_size l r j + sum_list (map (part_size l r) js))
        = slice d s (s + (part_size l r j + sum_list (map (part_size l r) js)))"
    by (simp add: slice_def take_add add.commute)
  then show ?case
    using Cons.IH [of "s + part_size l r j" "ps @ [h # slice d s (s + part_size l r j)]"]
    by (simp add: Let_def)
qed

lemma sum_part_size_upt:
  "sum_list (map (part_size l r) [0..<k]) = k * l + min k r"
  by (induction k) (auto simp: part_size_def)

lemma div_mod_total:
  "0 < n \<Longrightarrow> n * (D div n) + min n (D mod n) = (D::nat)"
proof -
  assume "0 < n"
  then have "D mod n < n" by simp
  then have "min n (D mod n) = D mod n" by simp
  then show ?thesis by simp
qed

lemma split_loop_part:
  assumes "0 < N" and "i < N"
  shows "\<exists>xs. split_loop header data_lines (length data_lines div N) (length data_lines mod N)
                 [0..<N] 0 [] ! i = header # xs \<and>
              length xs = part_size (length data_lines div N) (length data_lines mod N) i"
proof -
  let ?D = "length data_lines"
  let ?l = "?D div N" and ?r = "?D mod N"
  let ?ps = "split_loop header data_lines ?l ?r [0..<N] 0 []"
  let ?a = "sum_list (map (part_size ?l ?r) (take i [0..<N]))"
  let ?b = "sum_list (map (part_size ?l ?r) (take (Suc i) [0..<N]))"
  have nth: "?ps ! i = header # slice data_lines (0 + ?a) (0 + ?b)"
    using assms(2) by (intro split_loop_nth) simp
  have ti: "take i [0..<N] = [0..<i]" and tsi: "take (Suc i) [0..<N] = [0..<Suc i]"
    using assms(2) by (simp_all add: take_upt)
  have a: "?a = i * ?l + min i ?r"
    unfolding ti by (rule sum_part_size_upt)
  have b: "?b = Suc i * ?l + min (Suc i) ?r"
    unfolding tsi by (rule sum_part_size_upt)
  have "Suc i * ?l \<le> N * ?l"
    using assms(2) by (intro mult_le_mono1) simp
  moreover have "min (Suc i) ?r \<le> min N ?r"
    using assms(2) by simp
  moreover have "N * ?l + min N ?r = ?D"
    using div_mod_total [OF assms(1), of ?D] by simp
  ultimately have bD: "?b \<le> ?D"
    unfolding b by linarith
  have diff: "?b - ?a = part_size ?l ?r i"
    unfolding a b by (simp add: min_def part_size_def)
  have "length (slice data_lines ?a ?b) = ?b - ?a"
    using bD by (simp add: slice_def)
  with nth diff show ?thesis by simp
qed

lemma split_parts_run:
  assumes "0 < N"
  shows "split_parts header data_lines N =
           Inr (split_loop header data_lines (length data_lines div N) (length data_lines mod N)
                  [0..<N] 0 [])"
  using assms by (simp add: split_parts_def)

text \<open>
  Claim C3. For every number \<open>D\<close> of data lines and every part count \<open>N \<ge> 1\<close> the line
  partitioner returns \<open>N\<close> parts; part \<open>i\<close> (counted from 0) starts with the header, and
  holds \<open>D div N + 1\<close> data lines when \<open>i < D mod N\<close> and \<open>D div N\<close> data lines otherwise.
\<close>

theorem split_parts_sizes:
  assumes "0 < N"
  shows "\<exists>parts. split_parts header data_lines N = Inr parts \<and> length parts = N \<and>
           (\<forall>i<N. hd (parts ! i) = header \<and>
                  length (tl (parts ! i)) =
                    (if i < length data_lines mod N then length data_lines div N + 1
                     else length data_lines div N))"
proof -
  let ?D = "length data_lines"
  let ?ps = "split_loop header data_lines (?D div N) (?D mod N) [0..<N] 0 []"
  have res: "split_parts header data_lines N = Inr ?ps"
    using assms by (rule split_parts_run)
  have len: "length ?ps = N"
    by (simp add: split_loop_length)
  have each: "hd (?ps ! i) = header \<and>
              length (tl (?ps ! i)) = (if i < ?D mod N then ?D div N + 1 else ?D div N)"
    if "i < N" for i
    using split_loop_part [OF assms that, of header data_lines]
    by (auto simp: part_size_def)
  from res len each show ?thesis by blast
qed

theorem split_parts_sizes_witness:
  "(0::nat) < 3 \<and>
   (\<exists>parts. split_parts ''h'' [''a'', ''b'', ''c'', ''d'', ''e'', ''f'', ''g''] 3 = Inr parts \<and>
      length parts = 3 \<and>
      (\<forall>i<3. hd (parts ! i) = ''h'' \<and>
          length (tl (parts ! i)) =
            (if i < length [''a'', ''b'', ''c'', ''d'', ''e'', ''f'', ''g''] mod 3
             then length [''a'', ''b'', ''c'', ''d'', ''e'', ''f'', ''g''] div 3 + 1
             else length [''a'', ''b'', ''c'', ''d'', ''e'', ''f'', ''g''] div 3)))"
proof -
  have pos: "(0::nat) < 3" by simp
  show ?thesis by (rule conjI [OF pos split_parts_sizes [OF pos]])
qed

text \<open>
  Claim C4. For every non-empty input (a header followed by the data lines) and every part
  count \<open>N \<ge> 1\<close>, removing the leading header of every part and concatenating the parts in
  part order gives back the data lines in their original order.
\<close>

theorem split_parts_concat:
  assumes "0 < N"
  shows "\<exists>parts. split_parts header data_lines N = Inr parts \<and>
           concat (map tl parts) = data_lines"
proof -
  let ?D = "length data_lines"
  let ?l = "?D div N" and ?r = "?D mod N"
  have total: "sum_list (map (part_size ?l ?r) [0..<N]) = ?D"
    using div_mod_total [OF assms, of ?D] by (simp add: sum_part_size_upt)
  have "concat (map tl (split_loop header data_lines ?l ?r [0..<N] 0 [])) =
        slice data_lines 0 (0 + ?D)"
    using split_loop_concat [of header data_lines ?l ?r "[0..<N]" 0 "[]"]
    by (simp only: total) simp
  then show ?thesis
    using assms by (simp add: split_parts_def slice_def)
qed

theorem split_parts_concat_witness:
  "(0::nat) < 3 \<and>
   (\<exists>parts. split_parts ''h'' [''a'', ''b'', ''c'', ''d'', ''e'', ''f'', ''g''] 3 = Inr parts \<and>
      concat (map tl parts) = [''a'', ''b'', ''c'', ''d'', ''e'', ''f'', ''g''])"
proof -
  have pos: "(0::nat) < 3" by simp
  show ?thesis by (rule conjI [OF pos split_parts_concat [OF pos]])
qed

section \<open>Properties of the shuffle/shard partitioner\<close>

lemma shard_loop_files:
  "parquet_files (snd (shard_loop lib df dir prefix n rps is tot files st)) =
     parquet_files st @ map (\<lambda>i. ((dir, shard_name prefix i), shard_rows df n rps i)) is"
  by (induction "is" arbitrary: tot files st) (simp_all add: Let_def)

lemma shard_loop_names:
  "fst (fst (shard_loop lib df dir prefix n rps is tot files st)) =
     files @ map (\<lambda>i. (dir, shard_name prefix i)) is"
  by (induction "is" arbitrary: tot files st) (simp_all add: Let_def)

lemma shard_loop_rng:
  "rng (snd (shard_loop lib df dir prefix n rps is tot files st)) = rng st"
  by (induction "is" arbitrary: tot files st) (simp_all add: Let_def)

lemma shard_rows_inner:
  assumes "i < n - 1"
  shows "shard_rows df n (length df div n) i =
           take (length df div n) (drop (i * (length df div n)) df)"
  using assms by (simp add: shard_rows_def slice_def)

lemma shard_rows_last:
  "shard_rows df n rps (n - 1) = drop ((n - 1) * rps) df"
  by (simp add: shard_rows_def slice_def)

lemma concat_inner_shards:
  "k \<le> n - 1 \<Longrightarrow>
   concat (map (shard_rows df n (length df div n)) [0..<k]) = take (k * (length df div n)) df"
proof (induction k)
  case 0
  show ?case by simp
next
  case (Suc k)
  then have lt: "k < n - 1" and le: "k \<le> n - 1" by simp_all
  let ?q = "length df div n"
  have "concat (map (shard_rows df n ?q) [0..<Suc k]) =
        take (k * ?q) df @ take ?q (drop (k * ?q) df)"
    using Suc.IH [OF le] shard_rows_inner [OF lt, of df] by simp
  also have "\<dots> = take (k * ?q + ?q) df"
    by (rule take_add [symmetric])
  finally show ?case by (simp add: add.commute)
qed

lemma concat_all_shards:
  assumes "0 < n"
  shows "concat (map (shard_rows df n (length df div n)) [0..<n]) = df"
proof -
  from assms have n: "n = Suc (n - 1)" by simp
  have "[0..<n] = [0..<n - 1] @ [n - 1]"
    by (subst n) (simp del: One_nat_def)
  then have "concat (map (shard_rows df n (length df div n)) [0..<n]) =
      concat (map (shard_rows df n (length df div n)) [0..<n - 1]) @
      shard_rows df n (length df div n) (n - 1)"
    by (simp del: One_nat_def)
  also have "\<dots> = take ((n - 1) * (length df div n)) df @ drop ((n - 1) * (length df div n)) df"
    by (simp only: concat_inner_shards [OF order_refl] shard_rows_last)
  finally show ?thesis by simp
qed

lemma inner_shard_length:
  assumes "i < n - 1"
  shows "length (shard_rows df n (length df div n) i) = length df div n"
proof -
  let ?q = "length df div n"
  from assms have "Suc i \<le> n" by simp
  then have "Suc i * ?q \<le> n * ?q" by (rule mult_le_mono1)
  also have "n * ?q \<le> length df" by simp
  finally have "i * ?q + ?q \<le> length df" by simp
  then show ?thesis
    using assms by (simp add: shard_rows_inner)
qed

lemma last_shard_length:
  assumes "0 < n"
  shows "length (shard_rows df n (length df div n) (n - 1)) = length df div n + length df mod n"
proof -
  let ?q = "length df div n" and ?R = "length df"
  have "?R = n * ?q + ?R mod n" by simp
  also have "n * ?q = (n - 1) * ?q + ?q"
    using assms by (cases n) simp_all
  finally have "?R - (n - 1) * ?q = ?q + ?R mod n" by linarith
  then show ?thesis by (simp only: shard_rows_last length_drop)
qed

lemma permutation_in_range:
  assumes "mset idx = mset [0..<n]"
  shows "list_all (\<lambda>i. i < n) idx"
proof -
  from assms have "set idx = set [0..<n]" by (rule mset_eq_setD)
  then show ?thesis by (simp add: list_all_iff)
qed

lemma mset_reindex:
  assumes "mset idx = mset [0..<length df]"
  shows "mset (map (\<lambda>i. df ! i) idx) = mset df"
proof -
  have "mset (map (\<lambda>i. df ! i) idx) = image_mset (\<lambda>i. df ! i) (mset idx)" by simp
  also have "\<dots> = mset (map (\<lambda>i. df ! i) [0..<length df])" by (simp add: assms)
  also have "map (\<lambda>i. df ! i) [0..<length df] = df" by (rule map_nth)
  finally show ?thesis .
qed

lemma shuffle_and_shard_run:
  assumes seed: "0 \<le> seed" "seed < 2 ^ 32"
    and shards: "0 < num_shards"
    and perm: "mset (fst (np_permutation lib (np_seed lib (nat seed)) (length df))) =
               mset [0..<length df]"
  shows "shuffle_and_shard lib st df dir prefix num_shards seed =
         Inr (shard_loop lib
                (map (\<lambda>i. df ! i) (fst (np_permutation lib (np_seed lib (nat seed)) (length df))))
                dir prefix (nat num_shards) (length df div nat num_shards) [0..<nat num_shards] 0 []
                (st\<lparr>rng := snd (np_permutation lib (np_seed lib (nat seed)) (length df))\<rparr>))"
proof -
  obtain idx g where pg: "np_permutation lib (np_seed lib (nat seed)) (length df) = (idx, g)"
    by (cases "np_permutation lib (np_seed lib (nat seed)) (length df)")
  with perm have m: "mset idx = mset [0..<length df]" by simp
  then have "list_all (\<lambda>i. i < length df) idx" by (rule permutation_in_range)
  moreover have "length idx = length df"
    using mset_eq_length [OF m] by simp
  ultimately show ?thesis
    using seed shards pg
    by (simp add: shuffle_and_shard_def shuffled_indices_def random_seed_def
                  random_permutation_def iloc_take_def)
qed

text \<open>
  Claim C1. For a positive shard count, a seed numpy accepts, and a library whose permutation
  of the row positions is a permutation, the run succeeds and the rows of the shards it
  writes, concatenated in shard order, are the input rows rearranged by that permutation:
  every input row is in exactly one shard, none is lost and none is duplicated.
\<close>

theorem shards_partition_rows:
  assumes "0 \<le> seed" and "seed < 2 ^ 32" and "0 < num_shards"
    and "mset (fst (np_permutation lib (np_seed lib (nat seed)) (length df))) =
         mset [0..<length df]"
  shows "\<exists>files total st' shards idx.
           shuffle_and_shard lib st df dir prefix num_shards seed = Inr ((files, total), st') \<and>
           parquet_files st' = parquet_files st @ shards \<and>
           mset idx = mset [0..<length df] \<and>
           concat (map snd shards) = map (\<lambda>i. df ! i) idx \<and>
           mset (concat (map snd shards)) = mset df"
proof -
  let ?idx = "fst (np_permutation lib (np_seed lib (nat seed)) (length df))"
  let ?g = "snd (np_permutation lib (np_seed lib (nat seed)) (length df))"
  let ?sh = "map (\<lambda>i. df ! i) ?idx"
  let ?n = "nat num_shards"
  let ?res = "shard_loop lib ?sh dir prefix ?n (length df div ?n) [0..<?n] 0 [] (st\<lparr>rng := ?g\<rparr>)"
  let ?shards = "map (\<lambda>i. ((dir, shard_name prefix i), shard_rows ?sh ?n (length ?sh div ?n) i)) [0..<?n]"
  have run: "shuffle_and_shard lib st df dir prefix num_shards seed = Inr ?res"
    using assms by (rule shuffle_and_shard_run)
  have len0: "length ?idx = length df"
    using mset_eq_length [OF assms(4)] by simp
  then have len: "length ?sh = length df" by simp
  have files: "parquet_files (snd ?res) = parquet_files st @ ?shards"
    by (simp add: shard_loop_files len0)
  have "concat (map snd ?shards) =
        concat (map (shard_rows ?sh ?n (length ?sh div ?n)) [0..<?n])"
    by (simp add: comp_def len0)
  also have "\<dots> = ?sh"
    using assms(3) by (intro concat_all_shards) simp
  finally have cat: "concat (map snd ?shards) = ?sh" .
  have ms: "mset ?sh = mset df"
    using assms(4) by (rule mset_reindex)
  have "shuffle_and_shard lib st df dir prefix num_shards seed =
          Inr ((fst (fst ?res), snd (fst ?res)), snd ?res)"
    using run by simp
  with files assms(4) cat ms show ?thesis
    by (metis (no_types, lifting))
qed

text \<open>
  Claim C2. With \<open>R\<close> rows and \<open>N \<ge> 1\<close> shards the run succeeds and writes \<open>N\<close> shards; each
  of the first \<open>N - 1\<close> holds \<open>R div N\<close> rows and the last holds \<open>R div N + R mod N\<close> rows. When
  \<open>R < N\<close> the first \<open>N - 1\<close> shards are empty.
\<close>

theorem shard_row_counts:
  assumes "0 \<le> seed" and "seed < 2 ^ 32" and "0 < num_shards"
    and "mset (fst (np_permutation lib (np_seed lib (nat seed)) (length df))) =
         mset [0..<length df]"
  shows "\<exists>files total st' shards.
           shuffle_and_shard lib st df dir prefix num_shards seed = Inr ((files, total), st') \<and>
           parquet_files st' = parquet_files st @ shards \<and>
           length shards = nat num_shards \<and>
           (\<forall>i < nat num_shards - 1.
              length (snd (shards ! i)) = length df div nat num_shards) \<and>
           length (snd (last shards)) =
             length df div nat num_shards + length df mod nat num_shards \<and>
           (length df < nat num_shards \<longrightarrow>
              (\<forall>i < nat num_shards - 1. snd (shards ! i) = []))"
proof -
  let ?idx = "fst (np_permutation lib (np_seed lib (nat seed)) (length df))"
  let ?g = "snd (np_permutation lib (np_seed lib (nat seed)) (length df))"
  let ?sh = "map (\<lambda>i. df ! i) ?idx"
  let ?n = "nat num_shards"
  let ?res = "shard_loop lib ?sh dir prefix ?n (length df div ?n) [0..<?n] 0 [] (st\<lparr>rng := ?g\<rparr>)"
  let ?shards = "map (\<lambda>i. ((dir, shard_name prefix i), shard_rows ?sh ?n (length ?sh div ?n) i)) [0..<?n]"
  have n: "0 < ?n" using assms(3) by simp
  have run: "shuffle_and_shard lib st df dir prefix num_shards seed = Inr ?res"
    using assms by (rule shuffle_and_shard_run)
  have len0: "length ?idx = length df"
    using mset_eq_length [OF assms(4)] by simp
  then have len: "length ?sh = length df" by simp
  have files: "parquet_files (snd ?res) = parquet_files st @ ?shards"
    by (simp add: shard_loop_files len0)
  have count: "length ?shards = ?n" by simp
  have inner: "length (snd (?shards ! i)) = length df div ?n" if "i < ?n - 1" for i
  proof -
    from that have "i < ?n" by simp
    then have "snd (?shards ! i) = shard_rows ?sh ?n (length ?sh div ?n) i"
      by simp
    then show ?thesis
      using inner_shard_length [OF that, of ?sh] by (simp only: len)
  qed
  have "last ?shards = ?shards ! (?n - 1)"
    using n by (subst last_conv_nth) (simp_all del: One_nat_def)
  also have "\<dots> = ((dir, shard_name prefix (?n - 1)), shard_rows ?sh ?n (length ?sh div ?n) (?n - 1))"
    using n by (subst nth_map) (simp_all del: One_nat_def)
  finally have "snd (last ?shards) = shard_rows ?sh ?n (length ?sh div ?n) (?n - 1)"
    by simp
  then have final: "length (snd (last ?shards)) = length df div ?n + length df mod ?n"
    using last_shard_length [OF n, of ?sh] by (simp only: len)
  have "shuffle_and_shard lib st df dir prefix num_shards seed =
          Inr ((fst (fst ?res), snd (fst ?res)), snd ?res)"
    using run by simp
  moreover have "\<forall>i < ?n - 1. snd (?shards ! i) = []" if small: "length df < ?n"
  proof (intro allI impI)
    fix i assume "i < ?n - 1"
    then have "length (snd (?shards ! i)) = length df div ?n" by (rule inner)
    also have "\<dots> = 0" using small by simp
    finally show "snd (?shards ! i) = []" by simp
  qed
  ultimately show ?thesis
    using files count inner final by blast
qed

text \<open>
  Claim C5. Two runs on the same record set with the same seed draw the same permutation and
  write the same shards, whatever the state of the random generator was before each run.
\<close>

theorem shuffle_reproducible:
  "shuffled_indices lib (st\<lparr>rng := g1\<rparr>) n seed = shuffled_indices lib (st\<lparr>rng := g2\<rparr>) n seed \<and>
   shuffle_and_shard lib (st\<lparr>rng := g1\<rparr>) df dir prefix num_shards seed =
   shuffle_and_shard lib (st\<lparr>rng := g2\<rparr>) df dir prefix num_shards seed"
  by (simp add: shuffle_and_shard_def shuffled_indices_def random_seed_def)

theorem shards_partition_rows_witness:
  "(0::int) \<le> 42 \<and> (42::int) < 2 ^ 32 \<and> (0::int) < 3 \<and>
   mset (fst (np_permutation demo_library (np_seed demo_library (nat 42))
                (length [''a'', ''b'', ''c'', ''d'', ''e'', ''f'', ''g'']))) =
     mset [0..<length [''a'', ''b'', ''c'', ''d'', ''e'', ''f'', ''g'']] \<and>
   (\<exists>files total st' shards idx.
      shuffle_and_shard demo_library \<lparr>rng = 7, parquet_files = []\<rparr>
        [''a'', ''b'', ''c'', ''d'', ''e'', ''f'', ''g''] ''data'' ''hairfollicle'' 3 42 =
        Inr ((files, total), st') \<and>
      parquet_files st' = parquet_files \<lparr>rng = 7::nat, parquet_files = []\<rparr> @ shards \<and>
      mset idx = mset [0..<length [''a'', ''b'', ''c'', ''d'', ''e'', ''f'', ''g'']] \<and>
      concat (map snd shards) =
        map (\<lambda>i. [''a'', ''b'', ''c'', ''d'', ''e'', ''f'', ''g''] ! i) idx \<and>
      mset (concat (map snd shards)) =
        mset [''a'', ''b'', ''c'', ''d'', ''e'', ''f'', ''g''])"
proof -
  have h1: "(0::int) \<le> 42" and h2: "(42::int) < 2 ^ 32" and h3: "(0::int) < 3"
    by simp_all
  have h4: "mset (fst (np_permutation demo_library (np_seed demo_library (nat 42))
                (length [''a'', ''b'', ''c'', ''d'', ''e'', ''f'', ''g'']))) =
     mset [0..<length [''a'', ''b'', ''c'', ''d'', ''e'', ''f'', ''g'']]"
    by (simp add: demo_library_def)
  show ?thesis
    by (intro conjI h1 h2 h3 h4 shards_partition_rows [OF h1 h2 h3 h4])
qed

theorem shard_row_counts_witness:
  "(0::int) \<le> 42 \<and> (42::int) < 2 ^ 32 \<and> (0::int) < 3 \<and>
   mset (fst (np_permutation demo_library (np_seed demo_library (nat 42))
                (length [''a'', ''b'']))) = mset [0..<length [''a'', ''b'']] \<and>
   (\<exists>files total st' shards.
      shuffle_and_shard demo_library \<lparr>rng = 7, parquet_files = []\<rparr>
        [''a'', ''b''] ''data'' ''hairfollicle'' 3 42 = Inr ((files, total), st') \<and>
      parquet_files st' = parquet_files \<lparr>rng = 7::nat, parquet_files = []\<rparr> @ shards \<and>
      length shards = nat 3 \<and>
      (\<forall>i < nat 3 - 1. length (snd (shards ! i)) = length [''a'', ''b''] div nat 3) \<and>
      length (snd (last shards)) =
        length [''a'', ''b''] div nat 3 + length [''a'', ''b''] mod nat 3 \<and>
      (length [''a'', ''b''] < nat 3 \<longrightarrow>
         (\<forall>i < nat 3 - 1. snd (shards ! i) = [])))"
proof -
  have h1: "(0::int) \<le> 42" and h2: "(42::int) < 2 ^ 32" and h3: "(0::int) < 3"
    by simp_all
  have h4: "mset (fst (np_permutation demo_library (np_seed demo_library (nat 42))
                (length [''a'', ''b'']))) = mset [0..<length [''a'', ''b'']]"
    by (simp add: demo_library_def)
  show ?thesis
    by (intro conjI h1 h2 h3 h4 shard_row_counts [OF h1 h2 h3 h4])
qed

theorem shuffle_reproducible_witness:
  "shuffled_indices demo_library (\<lparr>rng = 0, parquet_files = []\<rparr>\<lparr>rng := 1\<rparr>) 5 42 =
   shuffled_indices demo_library (\<lparr>rng = 0, parquet_files = []\<rparr>\<lparr>rng := 2\<rparr>) 5 42 \<and>
   shuffle_and_shard demo_library (\<lparr>rng = 0, parquet_files = []\<rparr>\<lparr>rng := 1\<rparr>)
     [''a'', ''b'', ''c'', ''d'', ''e''] ''data'' ''hairfollicle'' 10 42 =
   shuffle_and_shard demo_library (\<lparr>rng = 0, parquet_files = []\<rparr>\<lparr>rng := 2\<rparr>)
     [''a'', ''b'', ''c'', ''d'', ''e''] ''data'' ''hairfollicle'' 10 42"
  by (rule shuffle_reproducible)

section \<open>Properties of the line reader\<close>

lemma splitlines_from_concat:
  "concat (splitlines_from cur s) = cur @ s"
  by (induction cur s rule: splitlines_from.induct) simp_all

lemma splitlines_from_nonempty_lines:
  "l \<in> set (splitlines_from cur s) \<Longrightarrow> l \<noteq> []"
  by (induction cur s rule: splitlines_from.induct) (auto split: if_splits)

lemma splitlines_from_Nil_iff:
  "splitlines_from cur s = [] \<longleftrightarrow> cur = [] \<and> s = []"
  by (induction cur s rule: splitlines_from.induct) simp_all

lemma ensure_final_newline_length:
  "length (ensure_final_newline lines) = length lines"
  by (simp add: ensure_final_newline_def)

lemma ensure_final_newline_butlast:
  "butlast (ensure_final_newline lines) = butlast lines"
  by (simp add: ensure_final_newline_def butlast_list_update)

lemma ensure_final_newline_last:
  assumes "lines \<noteq> []"
  shows "last (ensure_final_newline lines) =
           (if endswith (last lines) [0x0A] then last lines else last lines @ [0x0A])"
  using assms by (simp add: ensure_final_newline_def last_list_update)

lemma endswith_append_self: "endswith (xs @ ys) ys"
  by (simp add: endswith_def)

text \<open>
  Claim C8. When the file can be read and decompressed (directly or by the fallback) and the
  decoded text is not empty, the line reader returns the lines of the text: the lines
  concatenate to the text, every line but the last is returned as it is, and the last line is
  returned as it is when it ends with a newline character and with a newline character
  appended otherwise, so that the last line returned always ends with one.
\<close>

theorem read_file_lines_normalised:
  assumes "fs filepath = Some (File compressed_data)"
    and "decompress P compressed_data = Inr decompressed_data"
    and "decode_utf8 P decompressed_data \<noteq> []"
  shows "\<exists>lines. read_file_lines P fs filepath = Inr lines \<and>
           lines \<noteq> [] \<and>
           concat (splitlines_keepends (decode_utf8 P decompressed_data)) =
             decode_utf8 P decompressed_data \<and>
           length lines = length (splitlines_keepends (decode_utf8 P decompressed_data)) \<and>
           butlast lines = butlast (splitlines_keepends (decode_utf8 P decompressed_data)) \<and>
           last lines =
             (if endswith (last (splitlines_keepends (decode_utf8 P decompressed_data))) [0x0A]
              then last (splitlines_keepends (decode_utf8 P decompressed_data))
              else last (splitlines_keepends (decode_utf8 P decompressed_data)) @ [0x0A]) \<and>
           endswith (last lines) [0x0A]"
proof -
  let ?L = "splitlines_keepends (decode_utf8 P decompressed_data)"
  let ?lines = "ensure_final_newline ?L"
  have res: "read_file_lines P fs filepath = Inr ?lines"
    using assms(1,2) by (simp add: read_file_lines_def)
  have L: "?L \<noteq> []"
    using assms(3) by (simp add: splitlines_keepends_def splitlines_from_Nil_iff)
  have len: "length ?lines = length ?L"
    by (rule ensure_final_newline_length)
  with L have ne: "?lines \<noteq> []" by auto
  have cat: "concat ?L = decode_utf8 P decompressed_data"
    by (simp add: splitlines_keepends_def splitlines_from_concat)
  have bl: "butlast ?lines = butlast ?L"
    by (rule ensure_final_newline_butlast)
  have la: "last ?lines = (if endswith (last ?L) [0x0A] then last ?L else last ?L @ [0x0A])"
    using L by (rule ensure_final_newline_last)
  have nl: "endswith (last ?lines) [0x0A]"
    unfolding la by (simp add: endswith_append_self)
  from res ne cat len bl la nl show ?thesis by blast
qed

theorem read_file_lines_normalised_witness:
  "demo_fs ''in/data.tsv.gz'' =
     Some (File [0x1F, 0x68, 0x0A, 0x61, 0x0A, 0x62, 0x0D, 0x0A, 0x63]) \<and>
   decompress demo_platform [0x1F, 0x68, 0x0A, 0x61, 0x0A, 0x62, 0x0D, 0x0A, 0x63] =
     Inr [0x68, 0x0A, 0x61, 0x0A, 0x62, 0x0D, 0x0A, 0x63] \<and>
   decode_utf8 demo_platform [0x68, 0x0A, 0x61, 0x0A, 0x62, 0x0D, 0x0A, 0x63] \<noteq> [] \<and>
   read_file_lines demo_platform demo_fs ''in/data.tsv.gz'' =
     Inr [[0x68, 0x0A], [0x61, 0x0A], [0x62, 0x0D, 0x0A], [0x63, 0x0A]]"
proof -
  have h1: "demo_fs ''in/data.tsv.gz'' =
     Some (File [0x1F, 0x68, 0x0A, 0x61, 0x0A, 0x62, 0x0D, 0x0A, 0x63])"
    by (simp add: demo_fs_def)
  have h2: "decompress demo_platform [0x1F, 0x68, 0x0A, 0x61, 0x0A, 0x62, 0x0D, 0x0A, 0x63] =
     Inr [0x68, 0x0A, 0x61, 0x0A, 0x62, 0x0D, 0x0A, 0x63]"
    by (simp add: decompress_def demo_platform_def)
  have h3: "decode_utf8 demo_platform [0x68, 0x0A, 0x61, 0x0A, 0x62, 0x0D, 0x0A, 0x63] \<noteq> []"
    by (simp add: demo_platform_def)
  have sl: "splitlines_keepends (decode_utf8 demo_platform [0x68, 0x0A, 0x61, 0x0A, 0x62, 0x0D, 0x0A, 0x63])
            = [[0x68, 0x0A], [0x61, 0x0A], [0x62, 0x0D, 0x0A], [0x63]]"
    by (simp add: demo_platform_def splitlines_keepends_def is_line_boundary_def)
  from read_file_lines_normalised [where fs = demo_fs and filepath = "''in/data.tsv.gz''", OF h1 h2 h3]
  obtain lines where r: "read_file_lines demo_platform demo_fs ''in/data.tsv.gz'' = Inr lines"
    and bl: "butlast lines = butlast [[0x68, 0x0A], [0x61, 0x0A], [0x62, 0x0D, 0x0A], [0x63]]"
    and la: "last lines = (if endswith (last [[0x68, 0x0A], [0x61, 0x0A], [0x62, 0x0D, 0x0A], [0x63::nat]]) [0x0A]
              then last [[0x68, 0x0A], [0x61, 0x0A], [0x62, 0x0D, 0x0A], [0x63]]
              else last [[0x68, 0x0A], [0x61, 0x0A], [0x62, 0x0D, 0x0A], [0x63]] @ [0x0A])"
    and ne: "lines \<noteq> []"
    unfolding sl by blast
  from ne have "lines = butlast lines @ [last lines]" by simp
  with bl la have "lines = [[0x68, 0x0A], [0x61, 0x0A], [0x62, 0x0D, 0x0A], [0x63, 0x0A]]"
    by (simp add: endswith_def)
  with r h1 h2 h3 show ?thesis by simp
qed

section \<open>Names of the part files\<close>

lemma digit_val_nth:
  assumes "k < 10"
  shows "digit_val (''0123456789'' ! k) = k"
proof -
  from assms have "k = 0 \<or> k = 1 \<or> k = 2 \<or> k = 3 \<or> k = 4 \<or> k = 5 \<or> k = 6 \<or> k = 7 \<or> k = 8 \<or> k = 9"
    by arith
  then show ?thesis
    by (elim disjE) (simp_all add: digit_val_def)
qed

lemma nat_of_digits_snoc:
  "nat_of_digits (s @ [c]) = 10 * nat_of_digits s + digit_val c"
  by (simp add: nat_of_digits_def)

lemma nat_of_digits_str_nat:
  "nat_of_digits (str_nat n) = n"
proof (induction n rule: str_nat.induct)
  case (1 n)
  show ?case
  proof (cases "n < 10")
    case True
    then have "str_nat n = [''0123456789'' ! n]"
      by (subst str_nat.simps) simp
    with True show ?thesis
      using nat_of_digits_snoc [of "[]" "''0123456789'' ! n"]
      by (simp add: digit_val_nth nat_of_digits_def)
  next
    case False
    then have "str_nat n = str_nat (n div 10) @ [''0123456789'' ! (n mod 10)]"
      by (subst str_nat.simps) simp
    with False "1.IH" show ?thesis
      by (simp add: nat_of_digits_snoc digit_val_nth)
  qed
qed

lemma nat_of_digits_zeros:
  "nat_of_digits (replicate k (CHR ''0'') @ s) = nat_of_digits s"
proof (induction k)
  case 0
  show ?case by simp
next
  case (Suc k)
  have "foldl (\<lambda>acc c. 10 * acc + digit_val c) 0 (CHR ''0'' # replicate k (CHR ''0'') @ s) =
        foldl (\<lambda>acc c. 10 * acc + digit_val c) 0 (replicate k (CHR ''0'') @ s)"
    by (simp add: digit_val_def)
  with Suc show ?case
    by (simp add: nat_of_digits_def)
qed

lemma fmt_02d_inverse: "nat_of_digits (fmt_02d n) = n"
  by (simp add: fmt_02d_def nat_of_digits_zeros nat_of_digits_str_nat)

lemma fmt_02d_inject: "fmt_02d i = fmt_02d j \<Longrightarrow> i = j"
  by (metis fmt_02d_inverse)

lemma part_filename_inject:
  "part_filename output_path base_filename extension i =
   part_filename output_path base_filename extension j \<Longrightarrow> i = j"
  by (simp add: part_filename_def fmt_02d_inject)

lemma distinct_part_filenames:
  "distinct (map (part_filename output_path base_filename extension) [a..<b])"
  by (simp add: distinct_map inj_on_def) (metis part_filename_inject)

section \<open>Paths of the part files\<close>

lemma rfind_bounds: "- 1 \<le> rfind c s \<and> rfind c s < int (length s)"
proof (cases "c \<in> set s")
  case True
  then have "dropWhile (\<lambda>x. x \<noteq> c) (rev s) \<noteq> []"
    by (simp add: dropWhile_eq_Nil_conv)
  then have "0 < length (dropWhile (\<lambda>x. x \<noteq> c) (rev s))"
    by simp
  moreover have "length (takeWhile (\<lambda>x. x \<noteq> c) (rev s)) +
                 length (dropWhile (\<lambda>x. x \<noteq> c) (rev s)) = length s"
    by (simp only: length_append [symmetric] takeWhile_dropWhile_id length_rev)
  ultimately have "length (takeWhile (\<lambda>x. x \<noteq> c) (rev s)) < length s"
    by linarith
  with True show ?thesis by (simp add: rfind_def)
next
  case False
  then show ?thesis by (simp add: rfind_def)
qed

lemma rfind_append:
  assumes "c \<notin> set t"
  shows "rfind c (s @ t) = rfind c s"
proof -
  from assms have "takeWhile (\<lambda>x. x \<noteq> c) (rev t @ rev s) = rev t @ takeWhile (\<lambda>x. x \<noteq> c) (rev s)"
    by (intro takeWhile_append2) auto
  with assms show ?thesis by (simp add: rfind_def)
qed

lemma dirname_append:
  assumes "CHR ''/'' \<notin> set t"
  shows "dirname (s @ t) = dirname s"
proof -
  have r: "rfind (CHR ''/'') (s @ t) = rfind (CHR ''/'') s"
    using assms by (rule rfind_append)
  have "nat (rfind (CHR ''/'') s + 1) \<le> length s"
    using rfind_bounds [of "CHR ''/''" s] by linarith
  then have "take (nat (rfind (CHR ''/'') s + 1)) (s @ t) = take (nat (rfind (CHR ''/'') s + 1)) s"
    by simp
  then show ?thesis by (simp only: dirname_def r)
qed

lemma suffix_after_rfind:
  assumes "rfind c s < int k"
  shows "c \<notin> set (drop k s)"
proof (cases "c \<in> set s")
  case False
  then show ?thesis by (meson in_set_dropD)
next
  case True
  let ?n = "length (takeWhile (\<lambda>x. x \<noteq> c) (rev s))"
  from True assms have k: "length s - ?n \<le> k"
    by (simp add: rfind_def)
  have "drop (length s - ?n) s = rev (take ?n (rev s))"
    by (simp add: rev_take)
  also have "take ?n (rev s) = takeWhile (\<lambda>x. x \<noteq> c) (rev s)"
    by (rule takeWhile_eq_take [symmetric])
  finally have "c \<notin> set (drop (length s - ?n) s)"
    by (auto dest: set_takeWhileD)
  moreover have "set (drop k s) \<subseteq> set (drop (length s - ?n) s)"
    using k by (rule set_drop_subset_set_drop)
  ultimately show ?thesis by blast
qed

lemma basename_no_slash: "CHR ''/'' \<notin> set (basename p)"
  unfolding basename_def
  using rfind_bounds [of "CHR ''/''" p]
  by (intro suffix_after_rfind) simp

lemma splitext_ext_no_slash: "CHR ''/'' \<notin> set (snd (splitext p))"
proof (cases "rfind (CHR ''.'') p > rfind (CHR ''/'') p \<and>
              list_ex (\<lambda>c. c \<noteq> CHR ''.'')
                (slice p (nat (rfind (CHR ''/'') p + 1)) (nat (rfind (CHR ''.'') p)))")
  case True
  then have "rfind (CHR ''/'') p < int (nat (rfind (CHR ''.'') p))"
    using rfind_bounds [of "CHR ''/''" p] by simp
  then have "CHR ''/'' \<notin> set (drop (nat (rfind (CHR ''.'') p)) p)"
    by (rule suffix_after_rfind)
  with True show ?thesis by (simp add: splitext_def Let_def)
next
  case False
  then show ?thesis by (auto simp: splitext_def Let_def)
qed

lemma splitext_root_prefix: "set (fst (splitext p)) \<subseteq> set p"
  by (auto simp: splitext_def Let_def dest: in_set_takeD)

lemma get_base_filename_no_slash: "CHR ''/'' \<notin> set (get_base_filename f)"
proof -
  let ?b = "if endswith (basename f) ''.gz''
            then take (length (basename f) - 3) (basename f) else basename f"
  have "set ?b \<subseteq> set (basename f)"
    by (auto dest: in_set_takeD)
  moreover have "set (fst (splitext ?b)) \<subseteq> set ?b"
    by (rule splitext_root_prefix)
  moreover have "get_base_filename f = fst (splitext ?b)"
    by (simp add: get_base_filename_def Let_def)
  ultimately have "set (get_base_filename f) \<subseteq> set (basename f)"
    by (simp only: subset_trans)
  with basename_no_slash show ?thesis by blast
qed

lemma get_file_extension_no_slash: "CHR ''/'' \<notin> set (get_file_extension f)"
  using splitext_ext_no_slash by (simp add: get_file_extension_def Let_def)

lemma digit_no_slash: "k < 10 \<Longrightarrow> ''0123456789'' ! k \<noteq> CHR ''/''"
proof -
  assume "k < 10"
  then have "''0123456789'' ! k \<in> set ''0123456789''"
    by (intro nth_mem) simp
  then show ?thesis by auto
qed

lemma str_nat_no_slash: "CHR ''/'' \<notin> set (str_nat n)"
proof (induction n rule: str_nat.induct)
  case (1 n)
  show ?case
  proof (cases "n < 10")
    case True
    then have "str_nat n = [''0123456789'' ! n]"
      by (subst str_nat.simps) simp
    with digit_no_slash [OF True] show ?thesis by simp
  next
    case False
    then have "str_nat n = str_nat (n div 10) @ [''0123456789'' ! (n mod 10)]"
      by (subst str_nat.simps) simp
    moreover have "''0123456789'' ! (n mod 10) \<noteq> CHR ''/''"
      by (rule digit_no_slash) simp
    ultimately show ?thesis using False "1.IH" by simp
  qed
qed

lemma fmt_02d_no_slash: "CHR ''/'' \<notin> set (fmt_02d n)"
  using str_nat_no_slash by (auto simp: fmt_02d_def)

lemma part_filename_dirname:
  "dirname (part_filename output_path (get_base_filename f) (get_file_extension f) i) =
   dirname output_path"
proof -
  have "CHR ''/'' \<notin> set (get_base_filename f @ ''.part'' @ fmt_02d i @ get_file_extension f)"
    using get_base_filename_no_slash [of f] fmt_02d_no_slash [of i]
          get_file_extension_no_slash [of f]
    by simp
  then have "dirname (output_path @ (get_base_filename f @ ''.part'' @ fmt_02d i @
               get_file_extension f)) = dirname output_path"
    by (rule dirname_append)
  then show ?thesis by (simp add: part_filename_def)
qed

lemma rstrip_sep_length: "length (rstrip_sep s) \<le> length s"
  by (simp add: rstrip_sep_def) (metis length_dropWhile_le length_rev)

lemma dirname_length: "length (dirname p) \<le> length p"
proof -
  have "length (take (nat (rfind (CHR ''/'') p + 1)) p) \<le> length p" by simp
  moreover have "length (rstrip_sep (take (nat (rfind (CHR ''/'') p + 1)) p)) \<le> length p"
    using rstrip_sep_length [of "take (nat (rfind (CHR ''/'') p + 1)) p"] by simp
  ultimately show ?thesis by (simp add: dirname_def Let_def)
qed

lemma ancestors_length: "q \<in> set (ancestors p) \<Longrightarrow> length q \<le> length p"
proof -
  assume "q \<in> set (ancestors p)"
  then obtain i where "q = rstrip_sep (take i p)"
    by (auto simp: ancestors_def)
  then show ?thesis
    using rstrip_sep_length [of "take i p"] by simp
qed

lemma part_filename_length:
  "length output_path + 5 \<le> length (part_filename output_path base ext i)"
  by (simp add: part_filename_def)

section \<open>Properties of the line splitter\<close>

lemma parse_arguments_loop_world:
  "fs_ops (snd (parse_arguments_loop xs args w)) = fs_ops w \<and>
   stdout (snd (parse_arguments_loop xs args w)) =
     stdout w @ map ignoring_warning (filter (\<lambda>a. CHR ''='' \<notin> set a) xs)"
  by (induction xs arbitrary: args w) (simp_all add: Let_def print_def)

lemma parse_arguments_world:
  assumes "parse_arguments argv \<lparr>stdout = [], fs_ops = []\<rparr> = (args, w)"
  shows "fs_ops w = []"
    and "stdout w = map ignoring_warning (filter (\<lambda>a. CHR ''='' \<notin> set a) (tl argv))"
  using parse_arguments_loop_world [of "tl argv" Map.empty "\<lparr>stdout = [], fs_ops = []\<rparr>"] assms
  by (simp_all add: parse_arguments_def)

lemma usage_not_warning: "usage \<notin> set (map ignoring_warning xs)"
  by (auto simp: usage_def ignoring_warning_def)

lemma written_append: "written (xs @ ys) = written xs @ written ys"
  by (induction xs rule: written.induct) simp_all

lemma foldr_mkdir:
  "foldr (\<lambda>q m. m(q \<mapsto> Dir)) qs fs x = (if x \<in> set qs then Some Dir else fs x)"
  by (induction qs) auto

lemma os_makedirs_accepts:
  assumes "\<forall>q \<in> set (ancestors T @ [T]). \<not> is_file fs q"
  shows "os_makedirs fs T = Inr (foldr (\<lambda>q m. m(q \<mapsto> Dir)) (ancestors T @ [T]) fs)"
  using assms by (simp add: os_makedirs_def list_ex_iff)

lemma gzip_open_write_accepts:
  assumes "fs path \<noteq> Some Dir"
  shows "gzip_open_write P fs path content = Inr (fs(path \<mapsto> File (gzip_compress P content)))"
  using assms by (auto simp: gzip_open_write_def split: option.splits node.splits)

lemma write_loop_succeeds:
  assumes target: "\<And>i. (if dirname (part_filename out base ext i) \<noteq> []
                        then dirname (part_filename out base ext i) else ''.'') = T"
    and apart: "\<And>i. part_filename out base ext i \<notin> set (ancestors T @ [T])"
  shows "(\<forall>q \<in> set (ancestors T @ [T]). \<not> is_file fs q) \<Longrightarrow>
         (\<forall>item \<in> set items. fs (part_filename out base ext (fst item)) \<noteq> Some Dir) \<Longrightarrow>
         \<exists>sizes'. fst (write_loop P fs out base ext items sizes w) = Inr sizes' \<and>
           length sizes' = length sizes + length items \<and>
           written (fs_ops (snd (write_loop P fs out base ext items sizes w))) =
             written (fs_ops w) @
             map (\<lambda>(i, part_lines). (part_filename out base ext i, part_lines)) items"
proof (induction items arbitrary: fs sizes w)
  case Nil
  show ?case by simp
next
  case (Cons item rest)
  obtain i part_lines where item: "item = (i, part_lines)" by (cases item)
  let ?p = "part_filename out base ext i"
  define fs1 where "fs1 = foldr (\<lambda>q m. m(q \<mapsto> Dir)) (ancestors T @ [T]) fs"
  define fs2 where "fs2 = fs1(?p \<mapsto> File (gzip_compress P part_lines))"
  define w1 where "w1 = print (''Writing '' @ ?p @ '' ('' @ fmt_commas (length part_lines) @
                    '' lines including header)...'') w"
  define w4 where "w4 = print (''  Size: '' @ fmt_size_mb P (getsize P ?p part_lines) @ '' MB'')
                    (w1\<lparr>fs_ops := fs_ops w1 @ [MakeDirs T] @ [WriteGz ?p part_lines]\<rparr>)"
  define sizes2 where "sizes2 = sizes @ [getsize P ?p part_lines]"
  have fs1: "fs1 x = (if x \<in> set (ancestors T @ [T]) then Some Dir else fs x)" for x
    unfolding fs1_def by (rule foldr_mkdir)
  have mk: "os_makedirs fs T = Inr fs1"
    unfolding fs1_def using Cons.prems(1) by (rule os_makedirs_accepts)
  have "fs ?p \<noteq> Some Dir"
    using Cons.prems(2) item by simp
  moreover have "fs1 ?p = fs ?p"
    using apart [of i] by (simp only: fs1 if_False)
  ultimately have "fs1 ?p \<noteq> Some Dir" by simp
  then have wr: "gzip_open_write P fs1 ?p part_lines = Inr fs2"
    unfolding fs2_def by (rule gzip_open_write_accepts)
  have step: "write_loop P fs out base ext (item # rest) sizes w =
              write_loop P fs2 out base ext rest sizes2 w4"
    unfolding item by (simp add: Let_def target mk wr w1_def w4_def sizes2_def)
  have chain2: "\<forall>q \<in> set (ancestors T @ [T]). \<not> is_file fs2 q"
  proof
    fix q assume q: "q \<in> set (ancestors T @ [T])"
    with apart [of i] have "q \<noteq> ?p" by blast
    then have "fs2 q = fs1 q" by (simp add: fs2_def)
    also have "\<dots> = Some Dir" using q by (simp only: fs1 if_True)
    finally show "\<not> is_file fs2 q" by (simp add: is_file_def)
  qed
  have parts2: "\<forall>item' \<in> set rest. fs2 (part_filename out base ext (fst item')) \<noteq> Some Dir"
  proof
    fix item' assume mem: "item' \<in> set rest"
    let ?p' = "part_filename out base ext (fst item')"
    show "fs2 ?p' \<noteq> Some Dir"
    proof (cases "?p' = ?p")
      case True
      then show ?thesis by (simp add: fs2_def)
    next
      case False
      then have "fs2 ?p' = fs1 ?p'" by (simp add: fs2_def)
      also have "\<dots> = fs ?p'"
        using apart [of "fst item'"] by (simp only: fs1 if_False)
      finally show ?thesis using Cons.prems(2) mem by simp
    qed
  qed
  from Cons.IH [OF chain2 parts2, of sizes2 w4]
  obtain sizes' where
    r1: "fst (write_loop P fs2 out base ext rest sizes2 w4) = Inr sizes'"
    and r2: "length sizes' = length sizes2 + length rest"
    and r3: "written (fs_ops (snd (write_loop P fs2 out base ext rest sizes2 w4))) =
             written (fs_ops w4) @
             map (\<lambda>(i, part_lines). (part_filename out base ext i, part_lines)) rest"
    by blast
  have w4: "written (fs_ops w4) = written (fs_ops w) @ [(?p, part_lines)]"
    by (simp add: w4_def w1_def print_def written_append)
  have l2: "length sizes2 = length sizes + 1"
    by (simp add: sizes2_def)
  show ?case
    unfolding step
    by (rule exI [of _ sizes']) (simp add: r1 r2 r3 w4 l2 item)
qed

lemma summary_world:
  "fs_ops (snd (summary P n sizes w)) = fs_ops w"
  by (simp add: summary_def Let_def print_def)

lemma summary_returns:
  "sizes \<noteq> [] \<Longrightarrow> fst (summary P n sizes w) = Returned"
  by (simp add: summary_def Let_def)

lemma fmt_commas_0: "fmt_commas 0 = ''0''"
  by (simp add: fmt_commas_def str_nat.simps)

lemma main_accepted_arguments:
  assumes "parse_arguments argv \<lparr>stdout = [], fs_ops = []\<rparr> = (args, w)"
    and "args ''input_file'' = Some input_file" and "input_file \<noteq> []"
    and "args ''output_path'' = Some output_path" and "output_path \<noteq> []"
    and "args ''n_files'' = Some n_files" and "n_files \<noteq> []"
    and "py_int P n_files = Inr n" and "1 \<le> n"
  shows "main P fs argv = split_file P fs input_file output_path (nat n) w"
  using assms by (simp add: main_def falsy_def)

lemma split_file_empty:
  assumes "read_file_lines P fs input_file = Inr []"
  shows "split_file P fs input_file output_path n w =
           (SysExit 1, w\<lparr>stdout := stdout w @ [''Reading '' @ input_file @ ''...'',
                                                ''Total lines: 0'',
                                                ''Error: Input file is empty'']\<rparr>)"
proof -
  from assms obtain nd where "fs input_file = Some nd"
    by (auto simp: read_file_lines_def split: option.splits)
  with assms show ?thesis
    by (simp add: split_file_def Let_def print_def fmt_commas_0)
qed

text \<open>
  Claim C6. When the arguments pass validation and the input file decodes to zero lines, the
  run ends with \<open>sys.exit(1)\<close>, the last line printed is \<open>Error: Input file is empty\<close>, and no
  directory is created and no file is written.
\<close>

theorem empty_input_exit:
  assumes "parse_arguments argv \<lparr>stdout = [], fs_ops = []\<rparr> = (args, w)"
    and "args ''input_file'' = Some input_file" and "input_file \<noteq> []"
    and "args ''output_path'' = Some output_path" and "output_path \<noteq> []"
    and "args ''n_files'' = Some n_files" and "n_files \<noteq> []"
    and "py_int P n_files = Inr n" and "1 \<le> n"
    and "read_file_lines P fs input_file = Inr []"
  shows "main P fs argv =
           (SysExit 1,
            \<lparr>stdout = stdout w @ [''Reading '' @ input_file @ ''...'', ''Total lines: 0'',
                                  ''Error: Input file is empty''],
             fs_ops = []\<rparr>)"
proof -
  have "main P fs argv = split_file P fs input_file output_path (nat n) w"
    using assms(1-9) by (rule main_accepted_arguments)
  moreover have "fs_ops w = []"
    using assms(1) by (rule parse_arguments_world)
  ultimately show ?thesis
    using split_file_empty [OF assms(10), of output_path "nat n" w] by simp
qed

lemma split_file_missing:
  assumes "fs input_file = None"
  shows "split_file P fs input_file output_path n w =
           (SysExit 1, w\<lparr>stdout := stdout w @
              [''Error: Input file '' @ [CHR 0x27] @ input_file @ [CHR 0x27] @
               '' does not exist'']\<rparr>)"
  using assms by (simp add: split_file_def Let_def print_def)

lemma main_rejected:
  assumes parse: "parse_arguments argv \<lparr>stdout = [], fs_ops = []\<rparr> = (args, w)"
    and rej: "rejected_invocation P fs args"
  shows "\<exists>msgs. main P fs argv = (SysExit 1, w\<lparr>stdout := stdout w @ msgs\<rparr>) \<and>
           list_ex (\<lambda>m. take 7 m = ''Error: '') msgs \<and>
           (usage \<in> set msgs \<longleftrightarrow> missing_argument args)"
proof (cases "missing_argument args")
  case True
  then consider "falsy (args ''input_file'')"
    | "\<not> falsy (args ''input_file'')" "falsy (args ''output_path'')"
    | "\<not> falsy (args ''input_file'')" "\<not> falsy (args ''output_path'')" "falsy (args ''n_files'')"
    unfolding missing_argument_def by blast
  then show ?thesis
  proof cases
    case 1
    with parse have "main P fs argv =
        (SysExit 1, w\<lparr>stdout := stdout w @ [''Error: input_file is required'', usage]\<rparr>)"
      by (simp add: main_def print_def)
    with True show ?thesis by (intro exI [of _ "[''Error: input_file is required'', usage]"]) simp
  next
    case 2
    with parse have "main P fs argv =
        (SysExit 1, w\<lparr>stdout := stdout w @ [''Error: output_path is required'', usage]\<rparr>)"
      by (simp add: main_def print_def)
    with True show ?thesis by (intro exI [of _ "[''Error: output_path is required'', usage]"]) simp
  next
    case 3
    with parse have "main P fs argv =
        (SysExit 1, w\<lparr>stdout := stdout w @ [''Error: n_files is required'', usage]\<rparr>)"
      by (simp add: main_def print_def)
    with True show ?thesis by (intro exI [of _ "[''Error: n_files is required'', usage]"]) simp
  qed
next
  case False
  then obtain input_file output_path n_files
    where a: "args ''input_file'' = Some input_file" "input_file \<noteq> []"
      "args ''output_path'' = Some output_path" "output_path \<noteq> []"
      "args ''n_files'' = Some n_files" "n_files \<noteq> []"
    by (auto simp: missing_argument_def falsy_def split: option.splits)
  show ?thesis
  proof (cases "py_int P n_files")
    case (Inl msg)
    with parse a have "main P fs argv =
        (SysExit 1, w\<lparr>stdout := stdout w @
           [''Error: n_files must be a positive integer: '' @ msg]\<rparr>)"
      by (simp add: main_def print_def falsy_def)
    with False show ?thesis
      by (intro exI [of _ "[''Error: n_files must be a positive integer: '' @ msg]"])
         (simp add: usage_def)
  next
    case (Inr n)
    show ?thesis
    proof (cases "n < 1")
      case True
      with parse a Inr have "main P fs argv =
          (SysExit 1, w\<lparr>stdout := stdout w @
             [''Error: n_files must be a positive integer: n_files must be at least 1'']\<rparr>)"
        by (simp add: main_def print_def falsy_def)
      with False show ?thesis
        by (intro exI [of _ "[''Error: n_files must be a positive integer: n_files must be at least 1'']"])
           (simp add: usage_def)
    next
      case nonneg: False
      then have "1 \<le> n" by simp
      with parse a Inr have run: "main P fs argv = split_file P fs input_file output_path (nat n) w"
        by (intro main_accepted_arguments)
      from rej False a Inr nonneg
      consider "fs input_file = None" | "read_file_lines P fs input_file = Inr []"
        by (auto simp: rejected_invocation_def)
      then show ?thesis
      proof cases
        case 1
        with run False show ?thesis
          by (intro exI [of _ "[''Error: Input file '' @ [CHR 0x27] @ input_file @ [CHR 0x27] @
               '' does not exist'']"]) (simp add: split_file_missing usage_def)
      next
        case 2
        with run False show ?thesis
          by (intro exI [of _ "[''Reading '' @ input_file @ ''...'', ''Total lines: 0'',
                                ''Error: Input file is empty'']"])
             (simp add: split_file_empty usage_def)
      qed
    qed
  qed
qed

text \<open>
  Claim C7, as amended. An invocation with a missing or empty required argument, an
  \<open>n_files\<close> that \<open>int()\<close> rejects or that is below 1, an input path that does not exist, or an
  input that decodes to zero lines ends with \<open>sys.exit(1)\<close> after printing a line that starts
  with \<open>Error: \<close>, and issues no filesystem operation. The usage line is printed exactly when a
  required argument is missing or empty.
\<close>

theorem rejected_invocation_exit:
  assumes "parse_arguments argv \<lparr>stdout = [], fs_ops = []\<rparr> = (args, w)"
    and "rejected_invocation P fs args"
  shows "fst (main P fs argv) = SysExit 1 \<and>
         fs_ops (snd (main P fs argv)) = [] \<and>
         list_ex (\<lambda>m. take 7 m = ''Error: '') (stdout (snd (main P fs argv))) \<and>
         (usage \<in> set (stdout (snd (main P fs argv))) \<longleftrightarrow> missing_argument args)"
proof -
  from main_rejected [OF assms] obtain msgs
    where m: "main P fs argv = (SysExit 1, w\<lparr>stdout := stdout w @ msgs\<rparr>)"
      and e: "list_ex (\<lambda>m. take 7 m = ''Error: '') msgs"
      and u: "usage \<in> set msgs \<longleftrightarrow> missing_argument args"
    by blast
  have ops: "fs_ops w = []"
    using assms(1) by (rule parse_arguments_world)
  have out: "usage \<notin> set (stdout w)"
    unfolding parse_arguments_world(2) [OF assms(1)] by (rule usage_not_warning)
  from m e u ops out show ?thesis
    by (auto simp: list_ex_iff)
qed

text \<open>
  The claim as the specification states it, with a usage message for every rejected invocation,
  fails for \<open>n_files=0\<close>: the only line printed is the error line of lines 101 to 103.
\<close>

theorem usage_not_printed_counterexample:
  "main demo_platform demo_fs
     [''split_data.py'', ''input_file=in/data.tsv.gz'', ''output_path=out'', ''n_files=0''] =
     (SysExit 1,
      \<lparr>stdout = [''Error: n_files must be a positive integer: n_files must be at least 1''],
       fs_ops = []\<rparr>) \<and>
   usage \<notin> set [''Error: n_files must be a positive integer: n_files must be at least 1'']"
  by (simp add: main_def parse_arguments_def falsy_def print_def demo_platform_def demo_int_def
                nat_of_digits_def digit_val_def usage_def)

lemma part_filename_apart:
  "part_filename (normalise_output_path output_path) base ext i \<notin>
     set (ancestors (output_dir output_path) @ [output_dir output_path])"
proof
  let ?out = "normalise_output_path output_path"
  let ?T = "output_dir output_path"
  let ?p = "part_filename ?out base ext i"
  assume "?p \<in> set (ancestors ?T @ [?T])"
  then have "length ?p \<le> length ?T"
    using ancestors_length [of ?p ?T] by auto
  moreover have "length ?T \<le> length ?out + 1"
    using dirname_length [of ?out] by (simp add: output_dir_def)
  moreover have "length ?out + 5 \<le> length ?p"
    by (rule part_filename_length)
  ultimately show False by simp
qed

lemma split_file_accepted:
  assumes read: "read_file_lines P fs input_file = Inr (header # data_lines)"
    and pos: "0 < N"
    and dirs: "\<not> list_ex (is_file fs)
                 (ancestors (output_dir output_path) @ [output_dir output_path])"
    and files: "\<forall>i. fs (part_filename (normalise_output_path output_path)
                          (get_base_filename input_file) (get_file_extension input_file) i) \<noteq>
                      Some Dir"
  shows "fst (split_file P fs input_file output_path N w) = Returned \<and>
         written (fs_ops (snd (split_file P fs input_file output_path N w))) =
           written (fs_ops w) @
           map (\<lambda>(i, part_lines).
                  (part_filename (normalise_output_path output_path)
                     (get_base_filename input_file) (get_file_extension input_file) i,
                   part_lines))
               (zip [1..<N + 1]
                  (split_loop header data_lines (length data_lines div N)
                     (length data_lines mod N) [0..<N] 0 []))"
proof -
  let ?parts = "split_loop header data_lines (length data_lines div N)
                  (length data_lines mod N) [0..<N] 0 []"
  let ?items = "zip [1..<N + 1] ?parts"
  let ?out = "normalise_output_path output_path"
  let ?base = "get_base_filename input_file" and ?ext = "get_file_extension input_file"
  let ?w4 = "print (''Lines per part: ~'' @ fmt_commas (length data_lines div N) @
                    '' (excluding header)'')
              (print (''Splitting into '' @ str_nat N @ '' parts...'')
                (print (''Total lines: '' @ fmt_commas (length (header # data_lines)))
                  (print (''Reading '' @ input_file @ ''...'') w)))"
  let ?wl = "write_loop P fs ?out ?base ?ext ?items [] ?w4"
  from read obtain nd where nd: "fs input_file = Some nd"
    by (auto simp: read_file_lines_def split: option.splits)
  have parts: "split_parts header data_lines N = Inr ?parts"
    using pos by (rule split_parts_run)
  have len: "length ?items = N"
    by (simp add: split_loop_length)
  have target: "(if dirname (part_filename ?out ?base ?ext i) \<noteq> []
                 then dirname (part_filename ?out ?base ?ext i) else ''.'') =
                output_dir output_path" for i
    by (simp only: part_filename_dirname output_dir_def)
  have chain: "\<forall>q \<in> set (ancestors (output_dir output_path) @ [output_dir output_path]).
                 \<not> is_file fs q"
    using dirs by (simp only: list_ex_iff) blast
  have each: "\<forall>item \<in> set ?items. fs (part_filename ?out ?base ?ext (fst item)) \<noteq> Some Dir"
    using files by blast
  from write_loop_succeeds [of ?out ?base ?ext "output_dir output_path" fs ?items P "[]" ?w4,
        OF target part_filename_apart chain each]
  obtain sizes where s1: "fst ?wl = Inr sizes" and s2: "length sizes = length ?items"
    and s3: "written (fs_ops (snd ?wl)) =
             written (fs_ops ?w4) @
             map (\<lambda>(i, part_lines). (part_filename ?out ?base ?ext i, part_lines)) ?items"
    by auto
  have run: "split_file P fs input_file output_path N w = summary P N sizes (snd ?wl)"
    using nd read parts s1
    by (simp add: split_file_def Let_def split_beta split_loop_length del: upt_Suc)
  from s2 len pos have sizes: "sizes \<noteq> []" by auto
  have ops: "written (fs_ops (snd ?wl)) =
      written (fs_ops w) @ map (\<lambda>(i, part_lines). (part_filename ?out ?base ?ext i, part_lines)) ?items"
    using s3 by (simp add: print_def)
  show ?thesis
    unfolding run using summary_returns [OF sizes] ops by (simp add: summary_world)
qed

text \<open>
  Claim C10. A valid invocation is one whose arguments pass validation, whose input decodes
  to a header and \<open>D\<close> data lines, and whose output location can be written: neither the
  output directory nor a directory above it is a regular file, and no part path is a
  directory. Such a run returns normally and writes exactly \<open>N\<close> part files, under pairwise
  different names. Part \<open>i\<close> begins with the header, so it is never empty, and a part that is assigned no
  data line consists of the header alone. This holds whether or not \<open>D < N\<close>.
\<close>

theorem every_part_written:
  assumes "parse_arguments argv \<lparr>stdout = [], fs_ops = []\<rparr> = (args, w)"
    and "args ''input_file'' = Some input_file" and "input_file \<noteq> []"
    and "args ''output_path'' = Some output_path" and "output_path \<noteq> []"
    and "args ''n_files'' = Some n_files" and "n_files \<noteq> []"
    and "py_int P n_files = Inr n" and "1 \<le> n"
    and "read_file_lines P fs input_file = Inr (header # data_lines)"
    and "\<not> list_ex (is_file fs)
            (ancestors (output_dir output_path) @ [output_dir output_path])"
    and "\<forall>i. fs (part_filename (normalise_output_path output_path)
                   (get_base_filename input_file) (get_file_extension input_file) i) \<noteq>
               Some Dir"
  shows "fst (main P fs argv) = Returned \<and>
         length (written (fs_ops (snd (main P fs argv)))) = nat n \<and>
         distinct (map fst (written (fs_ops (snd (main P fs argv))))) \<and>
         (\<forall>i < nat n.
            snd (written (fs_ops (snd (main P fs argv))) ! i) \<noteq> [] \<and>
            hd (snd (written (fs_ops (snd (main P fs argv))) ! i)) = header \<and>
            length (tl (snd (written (fs_ops (snd (main P fs argv))) ! i))) =
              part_size (length data_lines div nat n) (length data_lines mod nat n) i \<and>
            (part_size (length data_lines div nat n) (length data_lines mod nat n) i = 0 \<longrightarrow>
               snd (written (fs_ops (snd (main P fs argv))) ! i) = [header]))"
proof -
  let ?N = "nat n"
  let ?parts = "split_loop header data_lines (length data_lines div ?N)
                  (length data_lines mod ?N) [0..<?N] 0 []"
  let ?name = "part_filename (normalise_output_path output_path)
                 (get_base_filename input_file) (get_file_extension input_file)"
  let ?files = "written (fs_ops (snd (main P fs argv)))"
  have pos: "0 < ?N" using assms(9) by simp
  have run: "main P fs argv = split_file P fs input_file output_path ?N w"
    using assms(1-9) by (rule main_accepted_arguments)
  have w: "fs_ops w = []"
    using assms(1) by (rule parse_arguments_world)
  have len: "length ?parts = ?N"
    by (simp add: split_loop_length)
  from split_file_accepted [OF assms(10) pos assms(11) assms(12), of w]
  have ret: "fst (main P fs argv) = Returned"
    and files: "?files = map (\<lambda>(i, part_lines). (?name i, part_lines)) (zip [1..<?N + 1] ?parts)"
    unfolding run by (simp_all add: w)
  have count: "length ?files = ?N"
    unfolding files by (simp add: len)
  have "map fst ?files = map ?name (map fst (zip [1..<?N + 1] ?parts))"
    unfolding files by (simp add: split_beta)
  also have "map fst (zip [1..<?N + 1] ?parts) = [1..<?N + 1]"
    by (rule map_fst_zip) (simp add: len)
  finally have "map fst ?files = map ?name [1..<?N + 1]" .
  then have names: "distinct (map fst ?files)"
    by (simp only: distinct_part_filenames)
  have each: "snd (?files ! i) \<noteq> [] \<and> hd (snd (?files ! i)) = header \<and>
              length (tl (snd (?files ! i))) =
                part_size (length data_lines div ?N) (length data_lines mod ?N) i \<and>
              (part_size (length data_lines div ?N) (length data_lines mod ?N) i = 0 \<longrightarrow>
                 snd (?files ! i) = [header])" if "i < ?N" for i
  proof -
    have "snd (?files ! i) = ?parts ! i"
      unfolding files using that by (simp add: len split_beta)
    moreover from split_loop_part [OF pos that, of header data_lines]
    obtain xs where "?parts ! i = header # xs"
      and "length xs = part_size (length data_lines div ?N) (length data_lines mod ?N) i"
      by blast
    ultimately show ?thesis by auto
  qed
  from ret count names each show ?thesis by blast
qed

lemma demo_read_empty:
  "read_file_lines demo_platform demo_fs ''in/empty.tsv.gz'' = Inr []"
  by (simp add: read_file_lines_def demo_fs_def decompress_def demo_platform_def
                splitlines_keepends_def ensure_final_newline_def)

lemma demo_read_data:
  "read_file_lines demo_platform demo_fs ''in/data.tsv.gz'' =
     Inr ([0x68, 0x0A] # [[0x61, 0x0A], [0x62, 0x0D, 0x0A], [0x63, 0x0A]])"
  by (simp add: read_file_lines_def demo_fs_def decompress_def demo_platform_def
                splitlines_keepends_def ensure_final_newline_def is_line_boundary_def
                endswith_def)

lemma demo_int_values:
  "py_int demo_platform ''0'' = Inr 0"
  "py_int demo_platform ''2'' = Inr 2"
  "py_int demo_platform ''5'' = Inr 5"
  by (simp_all add: demo_platform_def demo_int_def nat_of_digits_def digit_val_def)

theorem empty_input_exit_witness:
  "parse_arguments
     [''split_data.py'', ''input_file=in/empty.tsv.gz'', ''output_path=out'', ''n_files=2'']
     \<lparr>stdout = [], fs_ops = []\<rparr> =
     ([''input_file'' \<mapsto> ''in/empty.tsv.gz'', ''output_path'' \<mapsto> ''out'', ''n_files'' \<mapsto> ''2''],
      \<lparr>stdout = [], fs_ops = []\<rparr>) \<and>
   py_int demo_platform ''2'' = Inr 2 \<and> (1::int) \<le> 2 \<and>
   read_file_lines demo_platform demo_fs ''in/empty.tsv.gz'' = Inr [] \<and>
   main demo_platform demo_fs
     [''split_data.py'', ''input_file=in/empty.tsv.gz'', ''output_path=out'', ''n_files=2''] =
     (SysExit 1,
      \<lparr>stdout = stdout \<lparr>stdout = [], fs_ops = []\<rparr> @
                 [''Reading '' @ ''in/empty.tsv.gz'' @ ''...'', ''Total lines: 0'',
                  ''Error: Input file is empty''],
       fs_ops = []\<rparr>)"
proof -
  let ?args = "[''input_file'' \<mapsto> ''in/empty.tsv.gz'', ''output_path'' \<mapsto> ''out'',
                ''n_files'' \<mapsto> ''2'']"
  have h1: "parse_arguments
     [''split_data.py'', ''input_file=in/empty.tsv.gz'', ''output_path=out'', ''n_files=2'']
     \<lparr>stdout = [], fs_ops = []\<rparr> = (?args, \<lparr>stdout = [], fs_ops = []\<rparr>)"
    by (simp add: parse_arguments_def)
  have h2: "?args ''input_file'' = Some ''in/empty.tsv.gz''" and h3: "''in/empty.tsv.gz'' \<noteq> []"
    and h4: "?args ''output_path'' = Some ''out''" and h5: "''out'' \<noteq> []"
    and h6: "?args ''n_files'' = Some ''2''" and h7: "''2'' \<noteq> []"
    by simp_all
  have h8: "py_int demo_platform ''2'' = Inr 2" by (rule demo_int_values)
  have h9: "(1::int) \<le> 2" by simp
  note h10 = demo_read_empty
  show ?thesis
    by (intro conjI h1 h8 h9 h10 empty_input_exit [OF h1 h2 h3 h4 h5 h6 h7 h8 h9 h10])
qed

theorem rejected_invocation_exit_witness:
  "parse_arguments
     [''split_data.py'', ''input_file=in/data.tsv.gz'', ''output_path=out'', ''n_files=0'']
     \<lparr>stdout = [], fs_ops = []\<rparr> =
     ([''input_file'' \<mapsto> ''in/data.tsv.gz'', ''output_path'' \<mapsto> ''out'', ''n_files'' \<mapsto> ''0''],
      \<lparr>stdout = [], fs_ops = []\<rparr>) \<and>
   rejected_invocation demo_platform demo_fs
     [''input_file'' \<mapsto> ''in/data.tsv.gz'', ''output_path'' \<mapsto> ''out'', ''n_files'' \<mapsto> ''0''] \<and>
   fst (main demo_platform demo_fs
     [''split_data.py'', ''input_file=in/data.tsv.gz'', ''output_path=out'', ''n_files=0'']) =
     SysExit 1 \<and>
   fs_ops (snd (main demo_platform demo_fs
     [''split_data.py'', ''input_file=in/data.tsv.gz'', ''output_path=out'', ''n_files=0''])) = [] \<and>
   list_ex (\<lambda>m. take 7 m = ''Error: '') (stdout (snd (main demo_platform demo_fs
     [''split_data.py'', ''input_file=in/data.tsv.gz'', ''output_path=out'', ''n_files=0'']))) \<and>
   (usage \<in> set (stdout (snd (main demo_platform demo_fs
     [''split_data.py'', ''input_file=in/data.tsv.gz'', ''output_path=out'', ''n_files=0'']))) \<longleftrightarrow>
    missing_argument
     [''input_file'' \<mapsto> ''in/data.tsv.gz'', ''output_path'' \<mapsto> ''out'', ''n_files'' \<mapsto> ''0''])"
proof -
  let ?args = "[''input_file'' \<mapsto> ''in/data.tsv.gz'', ''output_path'' \<mapsto> ''out'',
                ''n_files'' \<mapsto> ''0'']"
  have h1: "parse_arguments
     [''split_data.py'', ''input_file=in/data.tsv.gz'', ''output_path=out'', ''n_files=0'']
     \<lparr>stdout = [], fs_ops = []\<rparr> = (?args, \<lparr>stdout = [], fs_ops = []\<rparr>)"
    by (simp add: parse_arguments_def)
  have h2: "rejected_invocation demo_platform demo_fs ?args"
    by (simp add: rejected_invocation_def demo_int_values)
  show ?thesis
    by (intro conjI h1 h2 rejected_invocation_exit [OF h1 h2, THEN conjunct1]
          rejected_invocation_exit [OF h1 h2, THEN conjunct2, THEN conjunct1]
          rejected_invocation_exit [OF h1 h2, THEN conjunct2, THEN conjunct2, THEN conjunct1]
          rejected_invocation_exit [OF h1 h2, THEN conjunct2, THEN conjunct2, THEN conjunct2])
qed

theorem every_part_written_witness:
  "parse_arguments
     [''split_data.py'', ''input_file=in/data.tsv.gz'', ''output_path=out'', ''n_files=5'']
     \<lparr>stdout = [], fs_ops = []\<rparr> =
     ([''input_file'' \<mapsto> ''in/data.tsv.gz'', ''output_path'' \<mapsto> ''out'', ''n_files'' \<mapsto> ''5''],
      \<lparr>stdout = [], fs_ops = []\<rparr>) \<and>
   py_int demo_platform ''5'' = Inr 5 \<and> (1::int) \<le> 5 \<and>
   read_file_lines demo_platform demo_fs ''in/data.tsv.gz'' =
     Inr ([0x68, 0x0A] # [[0x61, 0x0A], [0x62, 0x0D, 0x0A], [0x63, 0x0A]]) \<and>
   \<not> list_ex (is_file demo_fs) (ancestors (output_dir ''out'') @ [output_dir ''out'']) \<and>
   (\<forall>i. demo_fs (part_filename (normalise_output_path ''out'')
                  (get_base_filename ''in/data.tsv.gz'') (get_file_extension ''in/data.tsv.gz'') i) \<noteq>
              Some Dir) \<and>
   fst (main demo_platform demo_fs
     [''split_data.py'', ''input_file=in/data.tsv.gz'', ''output_path=out'', ''n_files=5'']) =
     Returned \<and>
   length (written (fs_ops (snd (main demo_platform demo_fs
     [''split_data.py'', ''input_file=in/data.tsv.gz'', ''output_path=out'', ''n_files=5''])))) =
     nat 5 \<and>
   snd (written (fs_ops (snd (main demo_platform demo_fs
     [''split_data.py'', ''input_file=in/data.tsv.gz'', ''output_path=out'', ''n_files=5'']))) ! 4) =
     [[0x68, 0x0A]]"
proof -
  let ?args = "[''input_file'' \<mapsto> ''in/data.tsv.gz'', ''output_path'' \<mapsto> ''out'',
                ''n_files'' \<mapsto> ''5'']"
  let ?argv = "[''split_data.py'', ''input_file=in/data.tsv.gz'', ''output_path=out'', ''n_files=5'']"
  have h1: "parse_arguments ?argv \<lparr>stdout = [], fs_ops = []\<rparr> =
              (?args, \<lparr>stdout = [], fs_ops = []\<rparr>)"
    by (simp add: parse_arguments_def)
  have h2: "?args ''input_file'' = Some ''in/data.tsv.gz''" and h3: "''in/data.tsv.gz'' \<noteq> []"
    and h4: "?args ''output_path'' = Some ''out''" and h5: "''out'' \<noteq> []"
    and h6: "?args ''n_files'' = Some ''5''" and h7: "''5'' \<noteq> []"
    by simp_all
  have h8: "py_int demo_platform ''5'' = Inr 5" by (rule demo_int_values)
  have h9: "(1::int) \<le> 5" by simp
  note h10 = demo_read_data
  have out: "normalise_output_path ''out'' = ''out/''"
    by (simp add: normalise_output_path_def endswith_def)
  have dir: "output_dir ''out'' = ''out''"
    by (simp add: output_dir_def out dirname_def rfind_def rstrip_sep_def)
  have h11: "\<not> list_ex (is_file demo_fs) (ancestors (output_dir ''out'') @ [output_dir ''out''])"
    by (simp add: dir ancestors_def is_file_def demo_fs_def)
  have h12: "\<forall>i. demo_fs (part_filename (normalise_output_path ''out'')
                  (get_base_filename ''in/data.tsv.gz'') (get_file_extension ''in/data.tsv.gz'') i) \<noteq>
              Some Dir"
    by (simp add: out part_filename_def demo_fs_def)
  note inst = every_part_written [OF h1 h2 h3 h4 h5 h6 h7 h8 h9 h10 h11 h12]
  from inst have ret: "fst (main demo_platform demo_fs ?argv) = Returned"
    and len: "length (written (fs_ops (snd (main demo_platform demo_fs ?argv)))) = nat 5"
    by blast+
  have "(4::nat) < nat 5" by simp
  moreover have "part_size (length [[0x61, 0x0A], [0x62, 0x0D, 0x0A], [0x63, 0x0A::nat]] div nat 5)
                   (length [[0x61, 0x0A], [0x62, 0x0D, 0x0A], [0x63, 0x0A::nat]] mod nat 5) 4 = 0"
    by (simp add: part_size_def)
  ultimately have last_part:
    "snd (written (fs_ops (snd (main demo_platform demo_fs ?argv))) ! 4) = [[0x68, 0x0A]]"
    using inst by blast
  show ?thesis
    by (intro conjI h1 h8 h9 h10 h11 h12 ret len last_part)
qed

text \<open>
  An output path that is a regular file: \<open>os.makedirs\<close> raises \<open>FileExistsError\<close> at the first
  part, no file is written, and the run ends with the exception.
\<close>

lemma output_path_is_a_file:
  "main demo_platform demo_fs
     [''split_data.py'', ''input_file=in/data.tsv.gz'', ''output_path=in/data.tsv.gz'',
      ''n_files=1''] =
     (Raised FileExistsError,
      \<lparr>stdout = [''Reading in/data.tsv.gz...'', ''Total lines: 4'', ''Splitting into 1 parts...'',
                 ''Lines per part: ~3 (excluding header)'',
                 ''Writing in/data.tsv.gz/data.part01.tsv.gz (4 lines including header)...''],
       fs_ops = []\<rparr>)"
proof -
  let ?argv = "[''split_data.py'', ''input_file=in/data.tsv.gz'', ''output_path=in/data.tsv.gz'',
                ''n_files=1'']"
  let ?args = "[''input_file'' \<mapsto> ''in/data.tsv.gz'', ''output_path'' \<mapsto> ''in/data.tsv.gz'',
                ''n_files'' \<mapsto> ''1'']"
  have h1: "parse_arguments ?argv \<lparr>stdout = [], fs_ops = []\<rparr> =
              (?args, \<lparr>stdout = [], fs_ops = []\<rparr>)"
    by (simp add: parse_arguments_def)
  have int1: "py_int demo_platform ''1'' = Inr 1"
    by (simp add: demo_platform_def demo_int_def nat_of_digits_def digit_val_def)
  have run: "main demo_platform demo_fs ?argv =
               split_file demo_platform demo_fs ''in/data.tsv.gz'' ''in/data.tsv.gz'' (nat 1)
                 \<lparr>stdout = [], fs_ops = []\<rparr>"
    by (rule main_accepted_arguments [OF h1 _ _ _ _ _ _ int1]) simp_all
  have out: "normalise_output_path ''in/data.tsv.gz'' = ''in/data.tsv.gz/''"
    by (simp add: normalise_output_path_def endswith_def)
  have base: "get_base_filename ''in/data.tsv.gz'' = ''data''"
    by (simp add: get_base_filename_def basename_def rfind_def endswith_def splitext_def slice_def)
  have ext: "get_file_extension ''in/data.tsv.gz'' = ''.tsv.gz''"
    by (simp add: get_file_extension_def rfind_def endswith_def splitext_def slice_def)
  have name: "part_filename ''in/data.tsv.gz/'' ''data'' ''.tsv.gz'' 1 =
                ''in/data.tsv.gz/data.part01.tsv.gz''"
    by (simp add: part_filename_def fmt_02d_def str_nat.simps)
  have dir: "dirname ''in/data.tsv.gz/data.part01.tsv.gz'' = ''in/data.tsv.gz''"
    by (simp add: dirname_def rfind_def rstrip_sep_def)
  have refuse: "os_makedirs demo_fs ''in/data.tsv.gz'' = Inl FileExistsError"
    by (simp add: os_makedirs_def ancestors_def is_file_def demo_fs_def rstrip_sep_def)
  have parts: "split_parts [0x68, 0x0A] [[0x61, 0x0A], [0x62, 0x0D, 0x0A], [0x63, 0x0A::nat]] (Suc 0) =
                 Inr [[[0x68, 0x0A], [0x61, 0x0A], [0x62, 0x0D, 0x0A], [0x63, 0x0A]]]"
    by (simp add: split_parts_def part_size_def slice_def)
  have four: "fmt_commas 4 = ''4''" and three: "fmt_commas 3 = ''3''"
    and one: "str_nat (Suc 0) = ''1''"
    by (simp_all add: fmt_commas_def str_nat.simps)
  have name': "part_filename ''in/data.tsv.gz/'' ''data'' ''.tsv.gz'' (Suc 0) =
                ''in/data.tsv.gz/data.part01.tsv.gz''"
    using name by simp
  have "Suc (Suc (Suc (Suc 0))) = 4" and "Suc (Suc (Suc 0)) = 3"
    by simp_all
  then have four': "fmt_commas (Suc (Suc (Suc (Suc 0)))) = ''4''"
    and three': "fmt_commas (Suc (Suc (Suc 0))) = ''3''"
    by (simp_all only: four three)
  have present: "demo_fs ''in/data.tsv.gz'' \<noteq> None"
    by (simp add: demo_fs_def)
  show ?thesis
    unfolding run
    by (simp add: split_file_def demo_read_data parts out base ext name' dir refuse four' three'
                  one print_def present Let_def)
qed

section \<open>Properties of the type optimizer\<close>

lemma narrow_in_range:
  fixes w :: "64 word"
  assumes "- 32768 \<le> sint w" and "sint w \<le> 32767"
  shows "sint (ucast w :: 16 word) = sint w"
proof -
  have "take_bit 16 (uint w) = take_bit 16 (sint w)"
    by (simp add: sint_uint take_bit_signed_take_bit)
  then have "(word_of_int (uint w) :: 16 word) = word_of_int (sint w)"
    by (simp only: word_of_int_eq_iff len_bit0 len_num1) simp
  then have "(ucast w :: 16 word) = word_of_int (sint w)"
    by (simp only: ucast_eq)
  then have "sint (ucast w :: 16 word) = sint (word_of_int (sint w) :: 16 word)"
    by (rule arg_cong)
  also have "\<dots> = signed_take_bit 15 (sint w)"
    by (simp only: sint_sbintrunc' len_bit0 len_num1) simp
  also have "\<dots> = sint w"
    using assms by (intro signed_take_bit_int_eq_self) simp_all
  finally show ?thesis .
qed

lemma convert_columns_frame:
  "convert_columns f cols df = Inr df' \<Longrightarrow> c \<notin> set cols \<Longrightarrow> df' c = df c"
proof (induction cols arbitrary: df)
  case Nil
  then show ?case by simp
next
  case (Cons col cols)
  from Cons.prems(2) have ne: "c \<noteq> col" and notin: "c \<notin> set cols" by simp_all
  show ?case
  proof (cases "df col")
    case None
    with Cons.prems(1) have "convert_columns f cols df = Inr df'" by simp
    from Cons.IH [OF this notin] show ?thesis .
  next
    case (Some x)
    with Cons.prems(1) obtain x' where "f x = Inr x'"
      and "convert_columns f cols (df(col \<mapsto> x')) = Inr df'"
      by (auto split: sum.splits)
    from Cons.IH [OF this(2) notin] ne show ?thesis by simp
  qed
qed

lemma convert_columns_dom:
  "convert_columns f cols df = Inr df' \<Longrightarrow> dom df' = dom df"
proof (induction cols arbitrary: df)
  case Nil
  then show ?case by simp
next
  case (Cons col cols)
  show ?case
  proof (cases "df col")
    case None
    with Cons.prems have "convert_columns f cols df = Inr df'" by simp
    from Cons.IH [OF this] show ?thesis .
  next
    case (Some x)
    with Cons.prems obtain x' where "f x = Inr x'"
      and "convert_columns f cols (df(col \<mapsto> x')) = Inr df'"
      by (auto split: sum.splits)
    from Cons.IH [OF this(2)] have "dom df' = dom (df(col \<mapsto> x'))" .
    also have "\<dots> = insert col (dom df)" by (simp only: dom_fun_upd option.simps if_False)
    also from Some have "\<dots> = dom df" by auto
    finally show ?thesis .
  qed
qed

lemma convert_columns_converted:
  "distinct cols \<Longrightarrow> convert_columns f cols df = Inr df' \<Longrightarrow> c \<in> set cols \<Longrightarrow>
   df c = Some x \<Longrightarrow> \<exists>x'. f x = Inr x' \<and> df' c = Some x'"
proof (induction cols arbitrary: df)
  case Nil
  then show ?case by simp
next
  case (Cons col cols)
  from Cons.prems(1) have d: "distinct cols" and fresh: "col \<notin> set cols" by simp_all
  show ?case
  proof (cases "c = col")
    case True
    with Cons.prems(2,4) obtain x' where fx: "f x = Inr x'"
      and rest: "convert_columns f cols (df(col \<mapsto> x')) = Inr df'"
      by (auto split: sum.splits)
    from convert_columns_frame [OF rest fresh] True fx show ?thesis by simp
  next
    case False
    with Cons.prems(3) have mem: "c \<in> set cols" by simp
    show ?thesis
    proof (cases "df col")
      case None
      with Cons.prems(2) have "convert_columns f cols df = Inr df'" by simp
      from Cons.IH [OF d this mem Cons.prems(4)] show ?thesis .
    next
      case (Some y)
      with Cons.prems(2) obtain y' where
        rest: "convert_columns f cols (df(col \<mapsto> y')) = Inr df'"
        by (auto split: sum.splits)
      from False Cons.prems(4) have "(df(col \<mapsto> y')) c = Some x" by simp
      from Cons.IH [OF d rest mem this] show ?thesis .
    qed
  qed
qed

lemma convert_columns_succeeds:
  "distinct cols \<Longrightarrow> (\<And>c x. c \<in> set cols \<Longrightarrow> df c = Some x \<Longrightarrow> \<exists>x'. f x = Inr x') \<Longrightarrow>
   \<exists>df'. convert_columns f cols df = Inr df'"
proof (induction cols arbitrary: df)
  case Nil
  show ?case by simp
next
  case (Cons col cols)
  from Cons.prems(1) have d: "distinct cols" and fresh: "col \<notin> set cols" by simp_all
  show ?case
  proof (cases "df col")
    case None
    have "\<exists>df'. convert_columns f cols df = Inr df'"
      using d Cons.prems(2) by (intro Cons.IH) auto
    with None show ?thesis by simp
  next
    case (Some x)
    with Cons.prems(2) [of col x] obtain x' where fx: "f x = Inr x'" by auto
    have "\<exists>df'. convert_columns f cols (df(col \<mapsto> x')) = Inr df'"
    proof (intro Cons.IH d)
      fix c y
      assume c: "c \<in> set cols" and "(df(col \<mapsto> x')) c = Some y"
      with fresh have "df c = Some y" by (auto split: if_splits)
      with c show "\<exists>y'. f y = Inr y'"
        using Cons.prems(2) [of c y] by simp
    qed
    with Some fx show ?thesis by simp
  qed
qed

lemma column_lists_distinct:
  "distinct FLOAT32_COLUMNS" "distinct INT16_COLUMNS" "distinct CATEGORICAL_COLUMNS"
  by (simp_all add: FLOAT32_COLUMNS_def INT16_COLUMNS_def CATEGORICAL_COLUMNS_def)

lemma column_lists_disjoint:
  "c \<in> set FLOAT32_COLUMNS \<Longrightarrow> c \<notin> set INT16_COLUMNS \<and> c \<notin> set CATEGORICAL_COLUMNS"
  "c \<in> set INT16_COLUMNS \<Longrightarrow> c \<notin> set FLOAT32_COLUMNS \<and> c \<notin> set CATEGORICAL_COLUMNS"
  "c \<in> set CATEGORICAL_COLUMNS \<Longrightarrow> c \<notin> set FLOAT32_COLUMNS \<and> c \<notin> set INT16_COLUMNS"
  by (auto simp: FLOAT32_COLUMNS_def INT16_COLUMNS_def CATEGORICAL_COLUMNS_def)

lemma optimize_dtypes_stages:
  assumes "optimize_dtypes pd df = Inr df'"
  obtains df1 df2 where
    "convert_columns (astype_float32 pd) FLOAT32_COLUMNS df = Inr df1"
    "convert_columns (astype_int16 pd) INT16_COLUMNS df1 = Inr df2"
    "convert_columns (astype_category pd) CATEGORICAL_COLUMNS df2 = Inr df'"
  using assms by (auto simp: optimize_dtypes_def split: sum.splits)

lemma optimize_dtypes_columns:
  "(optimize_dtypes pd df = Inr df' \<longrightarrow>
      dom df' = dom df \<and>
      (\<forall>c. c \<notin> set FLOAT32_COLUMNS \<and> c \<notin> set INT16_COLUMNS \<and> c \<notin> set CATEGORICAL_COLUMNS \<longrightarrow>
           df' c = df c) \<and>
      (\<forall>c x. c \<in> set FLOAT32_COLUMNS \<and> df c = Some x \<longrightarrow>
           (\<exists>x'. astype_float32 pd x = Inr x' \<and> df' c = Some x')) \<and>
      (\<forall>c x. c \<in> set INT16_COLUMNS \<and> df c = Some x \<longrightarrow>
           (\<exists>x'. astype_int16 pd x = Inr x' \<and> df' c = Some x')) \<and>
      (\<forall>c x. c \<in> set CATEGORICAL_COLUMNS \<and> df c = Some x \<longrightarrow>
           (\<exists>x'. astype_category pd x = Inr x' \<and> df' c = Some x')) \<and>
      (\<forall>c ws. c \<in> set INT16_COLUMNS \<and> df c = Some (Int64 ws) \<and>
              list_all (\<lambda>w. - 32768 \<le> sint w \<and> sint w \<le> 32767) ws \<longrightarrow>
           Option.bind (df' c) int_values = Some (map sint ws))) \<and>
   ((\<forall>c x. df c = Some x \<longrightarrow>
        (c \<in> set FLOAT32_COLUMNS \<longrightarrow> (\<exists>x'. astype_float32 pd x = Inr x')) \<and>
        (c \<in> set INT16_COLUMNS \<longrightarrow> (\<exists>x'. astype_int16 pd x = Inr x')) \<and>
        (c \<in> set CATEGORICAL_COLUMNS \<longrightarrow> (\<exists>x'. astype_category pd x = Inr x'))) \<longrightarrow>
    (\<exists>df''. optimize_dtypes pd df = Inr df''))"
proof (intro conjI impI)
  assume ok: "optimize_dtypes pd df = Inr df'"
  from ok obtain df1 df2 where
    s1: "convert_columns (astype_float32 pd) FLOAT32_COLUMNS df = Inr df1" and
    s2: "convert_columns (astype_int16 pd) INT16_COLUMNS df1 = Inr df2" and
    s3: "convert_columns (astype_category pd) CATEGORICAL_COLUMNS df2 = Inr df'"
    by (rule optimize_dtypes_stages)
  show "dom df' = dom df"
    using convert_columns_dom [OF s1] convert_columns_dom [OF s2] convert_columns_dom [OF s3]
    by simp
  show "\<forall>c. c \<notin> set FLOAT32_COLUMNS \<and> c \<notin> set INT16_COLUMNS \<and> c \<notin> set CATEGORICAL_COLUMNS \<longrightarrow>
          df' c = df c"
    using convert_columns_frame [OF s1] convert_columns_frame [OF s2]
          convert_columns_frame [OF s3]
    by simp
  show f32: "\<forall>c x. c \<in> set FLOAT32_COLUMNS \<and> df c = Some x \<longrightarrow>
          (\<exists>x'. astype_float32 pd x = Inr x' \<and> df' c = Some x')"
  proof (intro allI impI, elim conjE)
    fix c x
    assume c: "c \<in> set FLOAT32_COLUMNS" and x: "df c = Some x"
    from convert_columns_converted [OF column_lists_distinct(1) s1 c x]
    obtain x' where "astype_float32 pd x = Inr x'" and "df1 c = Some x'" by blast
    moreover from column_lists_disjoint(1) [OF c]
    have "df' c = df1 c"
      using convert_columns_frame [OF s2, of c] convert_columns_frame [OF s3, of c] by simp
    ultimately show "\<exists>x'. astype_float32 pd x = Inr x' \<and> df' c = Some x'" by simp
  qed
  show i16: "\<forall>c x. c \<in> set INT16_COLUMNS \<and> df c = Some x \<longrightarrow>
          (\<exists>x'. astype_int16 pd x = Inr x' \<and> df' c = Some x')"
  proof (intro allI impI, elim conjE)
    fix c x
    assume c: "c \<in> set INT16_COLUMNS" and x: "df c = Some x"
    from column_lists_disjoint(2) [OF c]
    have "df1 c = Some x" and keep: "df' c = df2 c"
      using convert_columns_frame [OF s1, of c] convert_columns_frame [OF s3, of c] x by simp_all
    from convert_columns_converted [OF column_lists_distinct(2) s2 c this(1)] keep
    show "\<exists>x'. astype_int16 pd x = Inr x' \<and> df' c = Some x'" by simp
  qed
  show "\<forall>c x. c \<in> set CATEGORICAL_COLUMNS \<and> df c = Some x \<longrightarrow>
          (\<exists>x'. astype_category pd x = Inr x' \<and> df' c = Some x')"
  proof (intro allI impI, elim conjE)
    fix c x
    assume c: "c \<in> set CATEGORICAL_COLUMNS" and x: "df c = Some x"
    from column_lists_disjoint(3) [OF c]
    have "df2 c = Some x"
      using convert_columns_frame [OF s1, of c] convert_columns_frame [OF s2, of c] x by simp
    from convert_columns_converted [OF column_lists_distinct(3) s3 c this]
    show "\<exists>x'. astype_category pd x = Inr x' \<and> df' c = Some x'" .
  qed
  show "\<forall>c ws. c \<in> set INT16_COLUMNS \<and> df c = Some (Int64 ws) \<and>
              list_all (\<lambda>w. - 32768 \<le> sint w \<and> sint w \<le> 32767) ws \<longrightarrow>
           Option.bind (df' c) int_values = Some (map sint ws)"
  proof (intro allI impI, elim conjE)
    fix c ws
    assume c: "c \<in> set INT16_COLUMNS" and x: "df c = Some (Int64 ws)"
      and range: "list_all (\<lambda>w. - 32768 \<le> sint w \<and> sint w \<le> 32767) ws"
    from i16 c x obtain x' where "astype_int16 pd (Int64 ws) = Inr x'" and "df' c = Some x'"
      by blast
    then have "df' c = Some (Int16 (map ucast ws))"
      by (simp add: astype_int16_def)
    moreover have "map sint (map ucast ws :: 16 word list) = map sint ws"
      using range by (simp add: list_all_iff narrow_in_range)
    ultimately show "Option.bind (df' c) int_values = Some (map sint ws)" by simp
  qed
next
  assume conv: "\<forall>c x. df c = Some x \<longrightarrow>
        (c \<in> set FLOAT32_COLUMNS \<longrightarrow> (\<exists>x'. astype_float32 pd x = Inr x')) \<and>
        (c \<in> set INT16_COLUMNS \<longrightarrow> (\<exists>x'. astype_int16 pd x = Inr x')) \<and>
        (c \<in> set CATEGORICAL_COLUMNS \<longrightarrow> (\<exists>x'. astype_category pd x = Inr x'))"
  have "\<exists>df1. convert_columns (astype_float32 pd) FLOAT32_COLUMNS df = Inr df1"
    using conv by (intro convert_columns_succeeds column_lists_distinct) blast
  then obtain df1 where s1: "convert_columns (astype_float32 pd) FLOAT32_COLUMNS df = Inr df1" ..
  have "\<exists>df2. convert_columns (astype_int16 pd) INT16_COLUMNS df1 = Inr df2"
  proof (intro convert_columns_succeeds column_lists_distinct)
    fix c x
    assume c: "c \<in> set INT16_COLUMNS" and "df1 c = Some x"
    with column_lists_disjoint(2) [OF c] have "df c = Some x"
      using convert_columns_frame [OF s1, of c] by simp
    with conv c show "\<exists>x'. astype_int16 pd x = Inr x'" by blast
  qed
  then obtain df2 where s2: "convert_columns (astype_int16 pd) INT16_COLUMNS df1 = Inr df2" ..
  have "\<exists>df3. convert_columns (astype_category pd) CATEGORICAL_COLUMNS df2 = Inr df3"
  proof (intro convert_columns_succeeds column_lists_distinct)
    fix c x
    assume c: "c \<in> set CATEGORICAL_COLUMNS" and "df2 c = Some x"
    with column_lists_disjoint(3) [OF c] have "df c = Some x"
      using convert_columns_frame [OF s1, of c] convert_columns_frame [OF s2, of c] by simp
    with conv c show "\<exists>x'. astype_category pd x = Inr x'" by blast
  qed
  then obtain df3 where "convert_columns (astype_category pd) CATEGORICAL_COLUMNS df2 = Inr df3" ..
  with s1 s2 show "\<exists>df''. optimize_dtypes pd df = Inr df''"
    by (simp add: optimize_dtypes_def)
qed

lemma narrow_cast:
  fixes w :: "64 word"
  shows "sint (ucast w :: 16 word) = signed_take_bit 15 (sint w)"
proof -
  have "take_bit 16 (uint w) = take_bit 16 (sint w)"
    by (simp add: sint_uint take_bit_signed_take_bit)
  then have "(word_of_int (uint w) :: 16 word) = word_of_int (sint w)"
    by (simp only: word_of_int_eq_iff len_bit0 len_num1) simp
  then have "(ucast w :: 16 word) = word_of_int (sint w)"
    by (simp only: ucast_eq)
  then have "sint (ucast w :: 16 word) = sint (word_of_int (sint w) :: 16 word)"
    by (rule arg_cong)
  also have "\<dots> = signed_take_bit 15 (sint w)"
    by (simp only: sint_sbintrunc' len_bit0 len_num1) simp
  finally show ?thesis .
qed

lemma narrow_kept_iff:
  fixes w :: "64 word"
  shows "sint (ucast w :: 16 word) = sint w \<longleftrightarrow> - 32768 \<le> sint w \<and> sint w \<le> 32767"
proof -
  have "signed_take_bit 15 (sint w) = sint w \<longleftrightarrow> - (2 ^ 15) \<le> sint w \<and> sint w < 2 ^ 15"
    by (rule signed_take_bit_int_eq_self_iff)
  moreover have "sint w < 2 ^ 15 \<longleftrightarrow> sint w \<le> 32767"
    by auto
  ultimately show ?thesis
    by (simp add: narrow_cast)
qed

text \<open>
  Claim C9, as amended. When the type optimizer returns, the frame has the same columns as
  before and every column outside the three lists is unchanged. Given that pandas keeps the
  values of a column it converts to a category and changes the values of a column it converts
  to \<open>float32\<close> by float narrowing at most, the values of the categorical columns are unaltered
  and those of the narrow-float columns are altered by float narrowing at most. In a
  narrow-int column of 64-bit integers every value is replaced by its low 16 bits read as a
  signed number, which is the value itself exactly when it lies between -32768 and 32767.
  The optimizer fails only when the conversion of a listed column that is present fails: a
  listed column that is absent is skipped.
\<close>

theorem optimize_dtypes_values:
  assumes "category_keeps_values pd rd" and "float32_narrows_values pd rd"
  shows
  "(optimize_dtypes pd df = Inr df' \<longrightarrow>
      dom df' = dom df \<and>
      (\<forall>c. c \<notin> set FLOAT32_COLUMNS \<and> c \<notin> set INT16_COLUMNS \<and> c \<notin> set CATEGORICAL_COLUMNS \<longrightarrow>
           df' c = df c) \<and>
      (\<forall>c x. c \<in> set CATEGORICAL_COLUMNS \<and> df c = Some x \<longrightarrow>
           (\<exists>x'. df' c = Some x' \<and> column_values rd x' = column_values rd x)) \<and>
      (\<forall>c x. c \<in> set FLOAT32_COLUMNS \<and> df c = Some x \<longrightarrow>
           (\<exists>x'. df' c = Some x' \<and>
                 list_all2 (float_narrowing rd) (column_values rd x) (column_values rd x'))) \<and>
      (\<forall>c ws. c \<in> set INT16_COLUMNS \<and> df c = Some (Int64 ws) \<longrightarrow>
           (\<exists>vs. df' c = Some (Int16 vs) \<and> length vs = length ws \<and>
                 (\<forall>i < length ws.
                    sint (vs ! i) = signed_take_bit 15 (sint (ws ! i)) \<and>
                    (sint (vs ! i) = sint (ws ! i) \<longleftrightarrow>
                       - 32768 \<le> sint (ws ! i) \<and> sint (ws ! i) \<le> 32767))))) \<and>
   ((\<forall>c x. df c = Some x \<longrightarrow>
        (c \<in> set FLOAT32_COLUMNS \<longrightarrow> (\<exists>x'. astype_float32 pd x = Inr x')) \<and>
        (c \<in> set INT16_COLUMNS \<longrightarrow> (\<exists>x'. astype_int16 pd x = Inr x')) \<and>
        (c \<in> set CATEGORICAL_COLUMNS \<longrightarrow> (\<exists>x'. astype_category pd x = Inr x'))) \<longrightarrow>
    (\<exists>df''. optimize_dtypes pd df = Inr df''))"
proof (intro conjI impI)
  assume ok: "optimize_dtypes pd df = Inr df'"
  note cols = optimize_dtypes_columns [of pd df df', THEN conjunct1, rule_format, OF ok]
  from cols show "dom df' = dom df" by blast
  from cols show "\<forall>c. c \<notin> set FLOAT32_COLUMNS \<and> c \<notin> set INT16_COLUMNS \<and>
                      c \<notin> set CATEGORICAL_COLUMNS \<longrightarrow> df' c = df c"
    by blast
  show "\<forall>c x. c \<in> set CATEGORICAL_COLUMNS \<and> df c = Some x \<longrightarrow>
           (\<exists>x'. df' c = Some x' \<and> column_values rd x' = column_values rd x)"
  proof (intro allI impI)
    fix c x
    assume "c \<in> set CATEGORICAL_COLUMNS \<and> df c = Some x"
    with cols obtain x' where "astype_category pd x = Inr x'" and "df' c = Some x'"
      by blast
    with assms(1) show "\<exists>x'. df' c = Some x' \<and> column_values rd x' = column_values rd x"
      by (auto simp: category_keeps_values_def)
  qed
  show "\<forall>c x. c \<in> set FLOAT32_COLUMNS \<and> df c = Some x \<longrightarrow>
           (\<exists>x'. df' c = Some x' \<and>
                 list_all2 (float_narrowing rd) (column_values rd x) (column_values rd x'))"
  proof (intro allI impI)
    fix c x
    assume "c \<in> set FLOAT32_COLUMNS \<and> df c = Some x"
    with cols obtain x' where "astype_float32 pd x = Inr x'" and "df' c = Some x'"
      by blast
    with assms(2) show "\<exists>x'. df' c = Some x' \<and>
        list_all2 (float_narrowing rd) (column_values rd x) (column_values rd x')"
      by (auto simp: float32_narrows_values_def)
  qed
  show "\<forall>c ws. c \<in> set INT16_COLUMNS \<and> df c = Some (Int64 ws) \<longrightarrow>
           (\<exists>vs. df' c = Some (Int16 vs) \<and> length vs = length ws \<and>
                 (\<forall>i < length ws.
                    sint (vs ! i) = signed_take_bit 15 (sint (ws ! i)) \<and>
                    (sint (vs ! i) = sint (ws ! i) \<longleftrightarrow>
                       - 32768 \<le> sint (ws ! i) \<and> sint (ws ! i) \<le> 32767)))"
  proof (intro allI impI)
    fix c ws
    assume "c \<in> set INT16_COLUMNS \<and> df c = Some (Int64 ws)"
    with cols obtain x' where "astype_int16 pd (Int64 ws) = Inr x'" and "df' c = Some x'"
      by blast
    then have "df' c = Some (Int16 (map ucast ws))"
      by (simp add: astype_int16_def)
    then show "\<exists>vs. df' c = Some (Int16 vs) \<and> length vs = length ws \<and>
                 (\<forall>i < length ws.
                    sint (vs ! i) = signed_take_bit 15 (sint (ws ! i)) \<and>
                    (sint (vs ! i) = sint (ws ! i) \<longleftrightarrow>
                       - 32768 \<le> sint (ws ! i) \<and> sint (ws ! i) \<le> 32767))"
      by (intro exI [of _ "map ucast ws"]) (simp add: narrow_cast narrow_kept_iff [simplified narrow_cast])
  qed
next
  assume "\<forall>c x. df c = Some x \<longrightarrow>
        (c \<in> set FLOAT32_COLUMNS \<longrightarrow> (\<exists>x'. astype_float32 pd x = Inr x')) \<and>
        (c \<in> set INT16_COLUMNS \<longrightarrow> (\<exists>x'. astype_int16 pd x = Inr x')) \<and>
        (c \<in> set CATEGORICAL_COLUMNS \<longrightarrow> (\<exists>x'. astype_category pd x = Inr x'))"
  with optimize_dtypes_columns [of pd df df', THEN conjunct2]
  show "\<exists>df''. optimize_dtypes pd df = Inr df''"
    by (rule mp)
qed

text \<open>
  The claim as the specification states it, with the values of every converted column
  unaltered but for the precision of floats, fails for a narrow-int column holding 40000:
  the frame returned holds the 16-bit value that reads as -25536.
\<close>

theorem int16_narrowing_counterexample:
  "optimize_dtypes demo_pandas [''TimeRank'' \<mapsto> Int64 [40000]] =
     Inr [''TimeRank'' \<mapsto> Int16 [40000]] \<and>
   int_values (Int64 [40000] :: string list column) = Some [40000] \<and>
   int_values (Int16 [40000] :: string list column) = Some [- 25536]"
  by (simp add: optimize_dtypes_def demo_pandas_def FLOAT32_COLUMNS_def INT16_COLUMNS_def
                CATEGORICAL_COLUMNS_def astype_int16_def)

lemma demo_pandas_properties:
  "category_keeps_values demo_pandas demo_reading"
  "float32_narrows_values demo_pandas demo_reading"
  by (auto simp: category_keeps_values_def float32_narrows_values_def demo_pandas_def
                 demo_reading_def column_values_def list.rel_eq split: column.splits)

theorem optimize_dtypes_values_witness:
  "category_keeps_values demo_pandas demo_reading \<and>
   float32_narrows_values demo_pandas demo_reading \<and>
   optimize_dtypes demo_pandas
     [''cell'' \<mapsto> Other [''c1'', ''c2''], ''Gene'' \<mapsto> Other [''Krt14'', ''Sox9''],
      ''x'' \<mapsto> Other [''1.5'', ''2.25''], ''TimeRank'' \<mapsto> Int64 [7, 300]] =
     Inr [''cell'' \<mapsto> Other [''c1'', ''c2''], ''Gene'' \<mapsto> Other [''Krt14'', ''Sox9''],
          ''x'' \<mapsto> Other [''1.5'', ''2.25''], ''TimeRank'' \<mapsto> Int16 [7, 300]] \<and>
   dom [''cell'' \<mapsto> Other [''c1'', ''c2''], ''Gene'' \<mapsto> Other [''Krt14'', ''Sox9''],
        ''x'' \<mapsto> Other [''1.5'', ''2.25''], ''TimeRank'' \<mapsto> Int16 [7, 300]] =
     dom [''cell'' \<mapsto> Other [''c1'', ''c2''], ''Gene'' \<mapsto> Other [''Krt14'', ''Sox9''],
          ''x'' \<mapsto> Other [''1.5'', ''2.25''], ''TimeRank'' \<mapsto> Int64 [7, 300]] \<and>
   (\<exists>x'. [''cell'' \<mapsto> Other [''c1'', ''c2''], ''Gene'' \<mapsto> Other [''Krt14'', ''Sox9''],
          ''x'' \<mapsto> Other [''1.5'', ''2.25''], ''TimeRank'' \<mapsto> Int16 [7, 300]] ''Gene'' = Some x' \<and>
         column_values demo_reading x' = column_values demo_reading (Other [''Krt14'', ''Sox9'']))"
proof -
  let ?df = "[''cell'' \<mapsto> Other [''c1'', ''c2''], ''Gene'' \<mapsto> Other [''Krt14'', ''Sox9''],
              ''x'' \<mapsto> Other [''1.5'', ''2.25''], ''TimeRank'' \<mapsto> Int64 [7, 300]]"
  let ?df' = "[''cell'' \<mapsto> Other [''c1'', ''c2''], ''Gene'' \<mapsto> Other [''Krt14'', ''Sox9''],
               ''x'' \<mapsto> Other [''1.5'', ''2.25''], ''TimeRank'' \<mapsto> Int16 [7, 300]]"
  note k1 = demo_pandas_properties(1) and k2 = demo_pandas_properties(2)
  have run: "optimize_dtypes demo_pandas ?df = Inr ?df'"
    by (simp add: optimize_dtypes_def demo_pandas_def FLOAT32_COLUMNS_def INT16_COLUMNS_def
                  CATEGORICAL_COLUMNS_def astype_int16_def fun_eq_iff)
  note inst = optimize_dtypes_values [OF k1 k2, of ?df ?df', THEN conjunct1, rule_format, OF run]
  have gene: "''Gene'' \<in> set CATEGORICAL_COLUMNS \<and> ?df ''Gene'' = Some (Other [''Krt14'', ''Sox9''])"
    by (simp add: CATEGORICAL_COLUMNS_def)
  show ?thesis
    by (intro conjI k1 k2 run inst [THEN conjunct1]
          inst [THEN conjunct2, THEN conjunct2, THEN conjunct1, rule_format, OF gene])
qed

end
